theory Spec2Isabelle
  imports
    Main
    "HOL-Library.Char_ord"
    "HOL-Library.List_Lexorder"
    "HOL-Library.Product_Lexorder"
    "HOL-Library.Multiset"
    "HOL-Library.Sublist"
begin

section \<open>Strings and paths\<close>

text \<open>
  The program is \<^verbatim>\<open>combiner.py\<close>. Python strings are modelled as \<^typ>\<open>string\<close>,
  compared character by character (\<^verbatim>\<open>sorted\<close> on strings and on tuples of strings is the
  lexicographic order of the element order). The platform is POSIX: \<^verbatim>\<open>os.sep\<close> is the
  slash. A Python \<^verbatim>\<open>Set[str]\<close> is the list of its members in the set's iteration order;
  membership tests go through \<^const>\<open>set\<close>, and only \<^verbatim>\<open>', '.join\<close> sees the order.
\<close>

definition sep :: char where
  "sep = CHR ''/''"

text \<open>\<^verbatim>\<open>s.split(c)\<close> for a one-character separator: never empty, \<^verbatim>\<open>"".split("/") == [""]\<close>.\<close>

fun split :: "char \<Rightarrow> string \<Rightarrow> string list" where
  "split c [] = [[]]"
| "split c (x # xs) =
     (if x = c then [] # split c xs
      else (case split c xs of
              [] \<Rightarrow> [[x]]
            | p # ps \<Rightarrow> (x # p) # ps))"

text \<open>\<^verbatim>\<open>s.endswith(ext)\<close>: the last \<^verbatim>\<open>len(ext)\<close> characters of \<^verbatim>\<open>s\<close> are \<^verbatim>\<open>ext\<close>.\<close>

definition endswith :: "string \<Rightarrow> string \<Rightarrow> bool" where
  "endswith s ext \<longleftrightarrow>
     length ext \<le> length s \<and> drop (length s - length ext) s = ext"

text \<open>\<^verbatim>\<open>d.join(xs)\<close>.\<close>

fun str_join :: "string \<Rightarrow> string list \<Rightarrow> string" where
  "str_join d [] = []"
| "str_join d [x] = x"
| "str_join d (x # y # ys) = x @ d @ str_join d (y # ys)"

text \<open>\<^verbatim>\<open>posixpath.join(a, b)\<close> for two components.\<close>

definition path_join :: "string \<Rightarrow> string \<Rightarrow> string" where
  "path_join a b =
     (if b \<noteq> [] \<and> hd b = sep then b
      else if a = [] \<or> last a = sep then a @ b
      else a @ [sep] @ b)"

text \<open>\<^verbatim>\<open>posixpath.join(a, *p)\<close>: the components are joined from the left.\<close>

definition path_join_all :: "string \<Rightarrow> string list \<Rightarrow> string" where
  "path_join_all a ps = foldl path_join a ps"

text \<open>\<^verbatim>\<open>os.path.commonprefix\<close> on two lists of components, as the length of the prefix.\<close>

fun commonprefix :: "'a list \<Rightarrow> 'a list \<Rightarrow> nat" where
  "commonprefix (x # xs) (y # ys) = (if x = y then Suc (commonprefix xs ys) else 0)"
| "commonprefix _ _ = 0"

text \<open>
  \<^verbatim>\<open>posixpath.relpath(p, start)\<close>. The library first applies \<^verbatim>\<open>abspath\<close> to both
  arguments; the model takes them as \<^verbatim>\<open>abspath\<close> leaves an absolute, normalised path
  (unchanged), which is what \<^verbatim>\<open>main\<close> passes and what the walk builds from it.
\<close>

definition relpath :: "string \<Rightarrow> string \<Rightarrow> string" where
  "relpath p start =
     (let start_list = filter (\<lambda>x. x \<noteq> []) (split sep start);
          path_list = filter (\<lambda>x. x \<noteq> []) (split sep p);
          i = commonprefix start_list path_list;
          rel_list = replicate (length start_list - i) ''..'' @ drop i path_list
      in case rel_list of
           [] \<Rightarrow> ''.''
         | r # rs \<Rightarrow> path_join_all r rs)"

section \<open>Path filter\<close>

definition should_skip_path :: "string \<Rightarrow> string list \<Rightarrow> bool" where
  "should_skip_path path exclude_items =
     (let path_parts = split sep path
      in list_ex (\<lambda>excluded. excluded \<in> set path_parts) exclude_items)"

definition should_skip_file :: "string \<Rightarrow> string list \<Rightarrow> bool" where
  "should_skip_file filename exclude_items \<longleftrightarrow> filename \<in> set exclude_items"

definition is_included_file :: "string \<Rightarrow> string list \<Rightarrow> bool" where
  "is_included_file filename file_types =
     (if file_types = [] then True
      else list_ex (\<lambda>ext. endswith filename ext) file_types)"

section \<open>The file system\<close>

text \<open>
  What the program can observe of the project: a regular file, or a directory with its
  entries in the order the operating system enumerates them. A directory may refuse to be
  listed (\<^verbatim>\<open>os.listdir\<close> and \<^verbatim>\<open>os.scandir\<close> raise); its entries are then still
  there, only out of reach. Symbolic links are not modelled.
\<close>

datatype os_error = PermissionError | NotADirectoryError | OSError

datatype node = File | Dir "os_error option" "(string \<times> node) list"

fun isdir :: "node \<Rightarrow> bool" where
  "isdir File = False"
| "isdir (Dir _ _) = True"

fun listdir :: "node \<Rightarrow> os_error + string list" where
  "listdir File = Inl NotADirectoryError"
| "listdir (Dir None es) = Inr (map fst es)"
| "listdir (Dir (Some e) es) = Inl e"

text \<open>The node a name resolves to inside a directory.\<close>

fun child :: "node \<Rightarrow> string \<Rightarrow> node option" where
  "child File name = None"
| "child (Dir _ es) name = map_of es name"

text \<open>
  Names the operating system can return from a listing: not empty, without a slash, and
  neither \<^verbatim>\<open>.\<close> nor \<^verbatim>\<open>..\<close>; a directory holds each name once.
\<close>

definition valid_name :: "string \<Rightarrow> bool" where
  "valid_name name \<longleftrightarrow> name \<noteq> [] \<and> sep \<notin> set name \<and> name \<noteq> ''.'' \<and> name \<noteq> ''..''"

fun wf_node :: "node \<Rightarrow> bool"
  and wf_entries :: "(string \<times> node) list \<Rightarrow> bool" where
  "wf_node File = True"
| "wf_node (Dir _ es) = (distinct (map fst es) \<and> wf_entries es)"
| "wf_entries [] = True"
| "wf_entries ((name, c) # es) = (valid_name name \<and> wf_node c \<and> wf_entries es)"

text \<open>
  What \<^verbatim>\<open>os.path.abspath\<close> returns: the root, or a slash before each of one or more
  names. (POSIX lets a path keep exactly two leading slashes; such a path is left out.)
\<close>

definition abs_norm :: "string \<Rightarrow> bool" where
  "abs_norm path \<longleftrightarrow>
     path \<noteq> [] \<and> hd path = sep \<and>
     (path = [sep] \<or> list_all valid_name (tl (split sep path)))"

text \<open>
  Three notions for stating facts about paths: the text that joining the names \<open>ds\<close>
  appends to a path, a path that joining can extend with a slash (not empty, not ending
  in one), and the text that stands before the relative path in every absolute path
  below the project path.
\<close>

definition tail_of :: "string list \<Rightarrow> string" where
  "tail_of ds = concat (map ((#) sep) ds)"

definition good :: "string \<Rightarrow> bool" where
  "good p \<longleftrightarrow> p \<noteq> [] \<and> last p \<noteq> sep"

definition proj_prefix :: "string \<Rightarrow> string" where
  "proj_prefix path = (if path = [sep] then [sep] else path @ [sep])"

text \<open>
  \<^verbatim>\<open>os.walk(top)\<close>, top-down, with the default \<^verbatim>\<open>onerror=None\<close>: a directory that
  cannot be scanned yields nothing, a listed one yields itself and then its
  sub-directories in listing order.
\<close>

fun walk :: "string \<Rightarrow> node \<Rightarrow> (string \<times> string list \<times> string list) list"
  and walk_dirs :: "string \<Rightarrow> (string \<times> node) list \<Rightarrow> (string \<times> string list \<times> string list) list" where
  "walk tp File = []"
| "walk tp (Dir (Some e) es) = []"
| "walk tp (Dir None es) =
     (tp, map fst (filter (\<lambda>(name, c). isdir c) es),
          map fst (filter (\<lambda>(name, c). \<not> isdir c) es))
       # walk_dirs tp es"
| "walk_dirs tp [] = []"
| "walk_dirs tp ((name, c) # es) =
     (if isdir c then walk (path_join tp name) c else []) @ walk_dirs tp es"

section \<open>Scanning\<close>

text \<open>The body of the loop of \<^verbatim>\<open>scan_directory\<close> for one tuple of the walk.\<close>

definition scan_step ::
  "string \<Rightarrow> string list \<Rightarrow> string list \<Rightarrow> string \<times> string list \<times> string list \<Rightarrow>
     (string \<times> string) list" where
  "scan_step path exclude_items file_types t =
     (case t of (root, _, files) \<Rightarrow>
        if should_skip_path root exclude_items then []
        else map (\<lambda>file. (path_join root file, relpath (path_join root file) path))
               (filter (\<lambda>file. \<not> should_skip_file file exclude_items \<and>
                                 is_included_file file file_types) files))"

definition file_paths :: "string \<Rightarrow> string list \<Rightarrow> string list \<Rightarrow> node \<Rightarrow> (string \<times> string) list" where
  "file_paths path exclude_items file_types n =
     concat (map (scan_step path exclude_items file_types) (walk path n))"

definition scan_directory ::
  "string \<Rightarrow> string list \<Rightarrow> string list \<Rightarrow> node \<Rightarrow> (string \<times> string) list" where
  "scan_directory path exclude_items file_types n =
     sort (file_paths path exclude_items file_types n)"

text \<open>
  For the proofs about scanning: the files the walk reaches, each as the list of names
  leading to it from the directory walked; the (root, file) pairs of a walk; and the
  test the loop of \<^verbatim>\<open>scan_directory\<close> applies to such a pair.
\<close>

fun all_files :: "node \<Rightarrow> string list list"
  and all_files_entries :: "(string \<times> node) list \<Rightarrow> string list list" where
  "all_files File = []"
| "all_files (Dir (Some e) es) = []"
| "all_files (Dir None es) =
     map (\<lambda>f. [f]) (map fst (filter (\<lambda>(name, c). \<not> isdir c) es)) @ all_files_entries es"
| "all_files_entries [] = []"
| "all_files_entries ((name, c) # es) =
     (if isdir c then map ((#) name) (all_files c) else []) @ all_files_entries es"

definition walk_pairs :: "(string \<times> string list \<times> string list) list \<Rightarrow> (string \<times> string) list" where
  "walk_pairs ts = concat (map (\<lambda>(root, dirs, files). map (Pair root) files) ts)"

definition keep_file :: "string list \<Rightarrow> string list \<Rightarrow> string \<times> string \<Rightarrow> bool" where
  "keep_file ex fts rf =
     (case rf of (root, file) \<Rightarrow>
        \<not> should_skip_path root ex \<and> \<not> should_skip_file file ex \<and> is_included_file file fts)"

section \<open>Tree rendering\<close>

text \<open>The box-drawing strings of the tree, as their UTF-8 bytes.\<close>

definition branch_last :: string where
  "branch_last =
     [CHR 0xE2, CHR 0x94, CHR 0x94, CHR 0xE2, CHR 0x94, CHR 0x80, CHR 0xE2, CHR 0x94, CHR 0x80] @ '' ''"

definition branch_mid :: string where
  "branch_mid =
     [CHR 0xE2, CHR 0x94, CHR 0x9C, CHR 0xE2, CHR 0x94, CHR 0x80, CHR 0xE2, CHR 0x94, CHR 0x80] @ '' ''"

definition bar_prefix :: string where
  "bar_prefix = [CHR 0xE2, CHR 0x94, CHR 0x82] @ ''   ''"

definition tree_line :: "string \<Rightarrow> bool \<Rightarrow> string \<Rightarrow> string" where
  "tree_line pfx is_last entry =
     (if is_last then pfx @ branch_last @ entry else pfx @ branch_mid @ entry)"

definition new_prefix :: "string \<Rightarrow> bool \<Rightarrow> string" where
  "new_prefix pfx is_last = (if is_last then pfx @ ''    '' else pfx @ bar_prefix)"

text \<open>
  The first loop of \<^verbatim>\<open>add_to_tree\<close>: which of the sorted entries are kept. The node
  \<open>n\<close> is the directory at \<open>dir_path\<close>, so \<^verbatim>\<open>os.path.isdir(full_path)\<close> is answered by
  the entry of that name in \<open>n\<close>.
\<close>

definition filtered_entries ::
  "string list \<Rightarrow> string list \<Rightarrow> string \<Rightarrow> node \<Rightarrow> string list \<Rightarrow> string list" where
  "filtered_entries exclude_items file_types dir_path n entries =
     filter (\<lambda>entry.
        let full_path = path_join dir_path entry
        in if (case child n entry of None \<Rightarrow> False | Some c \<Rightarrow> isdir c)
           then \<not> should_skip_path full_path exclude_items
           else \<not> should_skip_file entry exclude_items \<and> is_included_file entry file_types)
       entries"

text \<open>
  The second loop appends a line and then whatever the recursive call appends; an
  exception raised below leaves the loop.
\<close>

fun seq_lines :: "(string \<times> (os_error + string list)) list \<Rightarrow> os_error + string list" where
  "seq_lines [] = Inr []"
| "seq_lines ((line, r) # rest) =
     (case r of
        Inl e \<Rightarrow> Inl e
      | Inr sub \<Rightarrow>
          (case seq_lines rest of
             Inl e \<Rightarrow> Inl e
           | Inr more \<Rightarrow> Inr (line # sub @ more)))"

function add_to_tree ::
  "string list \<Rightarrow> string list \<Rightarrow> string \<Rightarrow> string \<Rightarrow> node \<Rightarrow> os_error + string list" where
  "add_to_tree exclude_items file_types dir_path pfx n =
     (case listdir n of
        Inl e \<Rightarrow> (if e = PermissionError then Inr [] else Inl e)
      | Inr entries \<Rightarrow>
          seq_lines
            (map (\<lambda>(i, entry).
                (tree_line pfx
                   (i = length (filtered_entries exclude_items file_types dir_path n (sort entries)) - 1)
                   entry,
                 case child n entry of
                   None \<Rightarrow> Inr []
                 | Some c \<Rightarrow>
                     if isdir c
                     then add_to_tree exclude_items file_types (path_join dir_path entry)
                            (new_prefix pfx
                               (i = length (filtered_entries exclude_items file_types dir_path n
                                              (sort entries)) - 1))
                            c
                     else Inr []))
               (enumerate 0 (filtered_entries exclude_items file_types dir_path n (sort entries)))))"
  by pat_completeness auto
termination
proof -
  have entry_size: "size c < Suc (size_list (size_prod (\<lambda>x. 0) size) es)"
    if "(name, c) \<in> set es" for name :: string and c :: node and es
    using that by (induction es) auto
  have child_size: "size c < size n" if "child n name = Some c" for n name c
    using that by (cases n) (auto dest!: map_of_SomeD entry_size)
  show ?thesis
    by (relation "measure (\<lambda>(exclude_items, file_types, dir_path, pfx, n). size n)")
       (auto dest: child_size)
qed

declare add_to_tree.simps [simp del]

text \<open>
  The second loop of \<^verbatim>\<open>add_to_tree\<close> over the kept entries, with the recursive call as a
  parameter, and the recursive call on one entry: \<^const>\<open>add_to_tree\<close> is the one after
  the other (\<open>add_to_tree_unfold\<close> below).
\<close>

definition tree_loop ::
  "string \<Rightarrow> string list \<Rightarrow> (string \<Rightarrow> string \<Rightarrow> os_error + string list) \<Rightarrow>
     os_error + string list" where
  "tree_loop pfx fe rec =
     seq_lines
       (map (\<lambda>(i, entry).
               (tree_line pfx (i = length fe - 1) entry,
                rec entry (new_prefix pfx (i = length fe - 1))))
          (enumerate 0 fe))"

definition subtree ::
  "string list \<Rightarrow> string list \<Rightarrow> string \<Rightarrow> node \<Rightarrow> string \<Rightarrow> string \<Rightarrow>
     os_error + string list" where
  "subtree exclude_items file_types dir_path n entry pfx =
     (case child n entry of
        None \<Rightarrow> Inr []
      | Some c \<Rightarrow>
          if isdir c
          then add_to_tree exclude_items file_types (path_join dir_path entry) pfx c
          else Inr [])"

definition generate_tree ::
  "string \<Rightarrow> string list \<Rightarrow> string list \<Rightarrow> node \<Rightarrow> os_error + string list" where
  "generate_tree path exclude_items file_types n =
     (case add_to_tree exclude_items file_types path [] n of
        Inl e \<Rightarrow> Inl e
      | Inr ls \<Rightarrow> Inr ((''Directory structure of: '' @ path) # ls))"

section \<open>Combining\<close>

definition banner :: string where
  "banner = replicate 80 CHR ''#''"

definition header_lines :: "string \<Rightarrow> string list \<Rightarrow> string list \<Rightarrow> string list" where
  "header_lines project_path exclude_items file_types =
     [''# Combined Project Files'',
      ''# Project Path: '' @ project_path,
      ''# Generated by ProjectCombiner'',
      ''#'',
      ''# Excluded items (directories and files):'',
      ''# '' @ (if exclude_items \<noteq> [] then str_join '', '' exclude_items else ''None''),
      ''#'',
      ''# Included file types:'',
      ''# '' @ (if file_types \<noteq> [] then str_join '', '' file_types else ''All files'')]"

definition tree_section :: "string list \<Rightarrow> string list" where
  "tree_section tree_content =
     [''#'', ''# Project Structure:'', ''#''] @
     map (\<lambda>line. ''# '' @ line) tree_content @
     [''#'', ''# File Contents:'', ''#'']"

text \<open>
  One round of the loop over the files. \<open>read_file\<close> is what opening the file, reading
  it and decoding it as UTF-8 gives: the text, or the message of the exception. The
  state is the list \<^verbatim>\<open>combined_content\<close> and what has been printed.
\<close>

definition combine_step ::
  "(string \<Rightarrow> string + string) \<Rightarrow> string list \<times> string list \<Rightarrow> string \<times> string \<Rightarrow>
     string list \<times> string list" where
  "combine_step read_file st fp =
     (case st of (combined_content, printed) \<Rightarrow>
      case fp of (abs_path, rel_path) \<Rightarrow>
        (case read_file abs_path of
           Inr content \<Rightarrow>
             (combined_content @
                [banner, ''# File: '' @ rel_path, banner, content, [CHR 0x0A]],
              printed)
         | Inl e \<Rightarrow>
             (combined_content,
              printed @ [''Warning: Error reading '' @ abs_path @ '': '' @ e])))"

text \<open>The result is the returned text and the lines printed on the way.\<close>

definition combine_files ::
  "(string \<Rightarrow> string + string) \<Rightarrow> (string \<times> string) list \<Rightarrow> string \<Rightarrow> string list \<Rightarrow>
     string list \<Rightarrow> string list \<Rightarrow> bool \<Rightarrow> string \<times> string list" where
  "combine_files read_file fps project_path tree_content exclude_items file_types include_tree =
     (case foldl (combine_step read_file)
             (header_lines project_path exclude_items file_types @
                (if include_tree then tree_section tree_content else []),
              [])
             fps of
        (combined_content, printed) \<Rightarrow> (str_join [CHR 0x0A] combined_content, printed))"

text \<open>
  What one file is to contribute, stated apart from the loop: its banner, header, banner,
  content and separator when it can be read, nothing otherwise; and the warning to be
  printed for it when it cannot.
\<close>

definition file_block :: "(string \<Rightarrow> string + string) \<Rightarrow> string \<times> string \<Rightarrow> string list" where
  "file_block read_file fp =
     (case fp of (abs_path, rel_path) \<Rightarrow>
        (case read_file abs_path of
           Inr content \<Rightarrow> [banner, ''# File: '' @ rel_path, banner, content, [CHR 0x0A]]
         | Inl e \<Rightarrow> []))"

definition read_warning :: "(string \<Rightarrow> string + string) \<Rightarrow> string \<times> string \<Rightarrow> string list" where
  "read_warning read_file fp =
     (case fp of (abs_path, rel_path) \<Rightarrow>
        (case read_file abs_path of
           Inr content \<Rightarrow> []
         | Inl e \<Rightarrow> [''Warning: Error reading '' @ abs_path @ '': '' @ e]))"

section \<open>The command\<close>

text \<open>
  The parsed command line: \<open>project_path\<close> is the argument after \<^verbatim>\<open>os.path.abspath\<close>,
  \<open>exclude\<close> and \<open>file_types\<close> are the two sets (\<open>file_types\<close> empty when the option is
  absent).
\<close>

record args =
  project_path :: string
  output_file :: string
  exclude :: "string list"
  file_types :: "string list"
  separate_tree :: bool

text \<open>
  The outside world when the command starts: what the project path refers to (nothing
  when it does not exist), what reading a file gives, whether a file can be opened for
  writing (the exception and its message when not), and where a file named on the command
  line lies: inside the project, under the names leading to it from the project
  directory, or outside it. (A relative name is resolved against the current directory,
  which is not modelled otherwise.)
\<close>

record world =
  project :: "node option"
  read_file :: "string \<Rightarrow> string + string"
  open_write :: "string \<Rightarrow> (os_error \<times> string) option"
  locate :: "string \<Rightarrow> string list option"

text \<open>
  How a run ends: \<^verbatim>\<open>main\<close> returns, calls \<^verbatim>\<open>sys.exit\<close>, or an exception nobody
  catches stops the interpreter, which then exits with status 1.
\<close>

datatype outcome = Returned | Exit nat | Uncaught os_error

fun exit_status :: "outcome \<Rightarrow> nat" where
  "exit_status Returned = 0"
| "exit_status (Exit k) = k"
| "exit_status (Uncaught e) = 1"

record run =
  printed :: "string list"
  outcome :: outcome
  written :: "(string \<times> string) list"

text \<open>\<^verbatim>\<open>s.rsplit(c, 1)[0]\<close>: the text before the last \<open>c\<close>, all of \<open>s\<close> when there is none.\<close>

definition rsplit1_head :: "char \<Rightarrow> string \<Rightarrow> string" where
  "rsplit1_head c s =
     (if c \<in> set s then rev (tl (dropWhile (\<lambda>x. x \<noteq> c) (rev s))) else s)"

definition tree_file_name :: "string \<Rightarrow> string" where
  "tree_file_name out_file = rsplit1_head CHR ''.'' out_file @ ''_tree.txt''"

text \<open>\<^verbatim>\<open>str(k)\<close> for a length.\<close>

definition digit_char :: "nat \<Rightarrow> char" where
  "digit_char d = char_of (of_char CHR ''0'' + d)"

function str_nat :: "nat \<Rightarrow> string" where
  "str_nat k = (if k < 10 then [digit_char k] else str_nat (k div 10) @ [digit_char (k mod 10)])"
  by pat_completeness auto
termination
  by (relation "measure id") auto

definition str_bool :: "bool \<Rightarrow> string" where
  "str_bool b = (if b then ''True'' else ''False'')"

definition config_lines :: "args \<Rightarrow> string list" where
  "config_lines a =
     [CHR 0x0A # ''Configuration:'',
      ''Project path: '' @ project_path a,
      ''Output file: '' @ output_file a,
      ''File types: '' @ (if file_types a \<noteq> [] then str_join '', '' (file_types a) else ''All files''),
      ''Excluded items: '' @ str_join '', '' (exclude a),
      ''Separate tree file: '' @ str_bool (separate_tree a) @ [CHR 0x0A]]"

text \<open>
  Writing a file changes what the rest of the run finds. A file written inside the
  project appears in its directory (at the end of the listing, when the name is new) and
  reads back as what was written.
\<close>

fun add_file :: "string list \<Rightarrow> node \<Rightarrow> node" where
  "add_file [] n = n"
| "add_file (name # rest) File = File"
| "add_file [name] (Dir e es) =
     (if name \<in> fst ` set es then Dir e es else Dir e (es @ [(name, File)]))"
| "add_file (d # r # rest) (Dir e es) =
     Dir e (map (\<lambda>(k, c). if k = d then (k, add_file (r # rest) c) else (k, c)) es)"

definition node_after_write :: "world \<Rightarrow> string \<Rightarrow> node \<Rightarrow> node" where
  "node_after_write w name n =
     (case locate w name of None \<Rightarrow> n | Some segs \<Rightarrow> add_file segs n)"

definition read_after_write ::
  "world \<Rightarrow> string \<Rightarrow> string \<Rightarrow> string \<Rightarrow> string \<Rightarrow> string + string" where
  "read_after_write w path name content =
     (case locate w name of
        None \<Rightarrow> read_file w
      | Some segs \<Rightarrow> (read_file w)(path_join_all path segs := Inr content))"

text \<open>The end of \<^verbatim>\<open>main\<close>: combining and saving, once files have been found.\<close>

definition main_combine ::
  "args \<Rightarrow> world \<Rightarrow> (string \<Rightarrow> string + string) \<Rightarrow> string list \<Rightarrow>
     (string \<times> string) list \<Rightarrow> string list \<Rightarrow> (string \<times> string) list \<Rightarrow> run" where
  "main_combine a w rd tree_content fps out files_written =
     (case combine_files rd fps (project_path a) tree_content (exclude a)
             (file_types a) (\<not> separate_tree a) of
        (combined_content, warnings) \<Rightarrow>
          (case open_write w (output_file a) of
             None \<Rightarrow>
               \<lparr>printed = out @ [''Combining files...''] @ warnings @
                   [CHR 0x0A # ''Processed '' @ str_nat (length fps) @ '' files'',
                    ''Combined content saved to: '' @ output_file a],
                outcome = Returned,
                written = files_written @ [(output_file a, combined_content)]\<rparr>
           | Some (e, msg) \<Rightarrow>
               \<lparr>printed = out @ [''Combining files...''] @ warnings @
                   [''Error writing to '' @ output_file a @ '': '' @ msg],
                outcome = Exit 1,
                written = files_written\<rparr>))"

text \<open>
  The middle of \<^verbatim>\<open>main\<close>: scanning, once the tree has been generated and saved. Here
  \<open>rd\<close> and \<open>n\<close> are what reading a file gives and the project as they are at that
  moment.
\<close>

definition main_scan ::
  "args \<Rightarrow> world \<Rightarrow> (string \<Rightarrow> string + string) \<Rightarrow> node \<Rightarrow> string list \<Rightarrow> string list \<Rightarrow>
     (string \<times> string) list \<Rightarrow> run" where
  "main_scan a w rd n tree_content out files_written =
     (case scan_directory (project_path a) (exclude a) (file_types a) n of
        [] \<Rightarrow>
          \<lparr>printed = out @ [''Scanning for files...'', ''Warning: No matching files found!''],
           outcome = Exit 1,
           written = files_written\<rparr>
      | fp # fps \<Rightarrow>
          main_combine a w rd tree_content (fp # fps) (out @ [''Scanning for files...''])
            files_written)"

text \<open>
  The beginning of \<^verbatim>\<open>main\<close>, up to the call of \<^verbatim>\<open>scan_directory\<close>: either the run
  has ended, or the scan is about to start, with what reading gives and the project as
  the separate tree file, when one was written, has left them, the tree, the lines
  printed and the files written so far.
\<close>

definition main_tree ::
  "args \<Rightarrow> world \<Rightarrow>
     run + (string \<Rightarrow> string + string) \<times> node \<times> string list \<times> string list \<times>
           (string \<times> string) list" where
  "main_tree a w =
     (case project w of
        None \<Rightarrow>
          Inl \<lparr>printed = config_lines a @ [''Error: Path '' @ project_path a @ '' does not exist''],
               outcome = Exit 1,
               written = []\<rparr>
      | Some n \<Rightarrow>
          (case generate_tree (project_path a) (exclude a) (file_types a) n of
             Inl e \<Rightarrow>
               Inl \<lparr>printed = config_lines a @ [''Generating directory tree...''],
                    outcome = Uncaught e,
                    written = []\<rparr>
           | Inr tree_content \<Rightarrow>
               if separate_tree a then
                 (case open_write w (tree_file_name (output_file a)) of
                    Some (e, msg) \<Rightarrow>
                      Inl \<lparr>printed = config_lines a @ [''Generating directory tree...''],
                           outcome = Uncaught e,
                           written = []\<rparr>
                  | None \<Rightarrow>
                      Inr (read_after_write w (project_path a) (tree_file_name (output_file a))
                             (str_join [CHR 0x0A] tree_content),
                           node_after_write w (tree_file_name (output_file a)) n,
                           tree_content,
                           config_lines a @
                             [''Generating directory tree...'',
                              ''Directory tree saved to: '' @ tree_file_name (output_file a)],
                           [(tree_file_name (output_file a), str_join [CHR 0x0A] tree_content)]))
               else
                 Inr (read_file w, n, tree_content,
                      config_lines a @ [''Generating directory tree...''], [])))"

definition main :: "args \<Rightarrow> world \<Rightarrow> run" where
  "main a w =
     (case main_tree a w of
        Inl r \<Rightarrow> r
      | Inr (rd, n', tree_content, out, files_written) \<Rightarrow>
          main_scan a w rd n' tree_content out files_written)"

text \<open>
  What the call of \<^verbatim>\<open>scan_directory\<close> in \<^verbatim>\<open>main\<close> returns; nothing when the run ends
  before the call.
\<close>

definition scan_call :: "args \<Rightarrow> world \<Rightarrow> (string \<times> string) list option" where
  "scan_call a w =
     (case main_tree a w of
        Inl r \<Rightarrow> None
      | Inr (rd, n', tree_content, out, files_written) \<Rightarrow>
          Some (scan_directory (project_path a) (exclude a) (file_types a) n'))"

section \<open>File systems to compare with\<close>

text \<open>
  The same file system with every directory that refuses to be listed with a permission
  error replaced by an empty directory.
\<close>

fun hide_denied :: "node \<Rightarrow> node"
  and hide_denied_entries :: "(string \<times> node) list \<Rightarrow> (string \<times> node) list" where
  "hide_denied File = File"
| "hide_denied (Dir e es) =
     (if e = Some PermissionError then Dir None [] else Dir e (hide_denied_entries es))"
| "hide_denied_entries [] = []"
| "hide_denied_entries ((name, c) # es) = (name, hide_denied c) # hide_denied_entries es"

text \<open>A file, or a directory whose listing raises \<^verbatim>\<open>PermissionError\<close>.\<close>

fun file_or_denied :: "node \<Rightarrow> bool" where
  "file_or_denied File = True"
| "file_or_denied (Dir e es) = (e = Some PermissionError)"

text \<open>
  The same file system without the entries, files or directories with all they hold,
  whose name is in the exclusion set.
\<close>

fun prune :: "string list \<Rightarrow> node \<Rightarrow> node"
  and prune_entries :: "string list \<Rightarrow> (string \<times> node) list \<Rightarrow> (string \<times> node) list" where
  "prune ex File = File"
| "prune ex (Dir e es) = Dir e (prune_entries ex es)"
| "prune_entries ex [] = []"
| "prune_entries ex ((name, c) # es) =
     (if name \<in> set ex then prune_entries ex es
      else (name, prune ex c) # prune_entries ex es)"

text \<open>The same file system with no sub-directory directly under its root.\<close>

fun drop_subdirs :: "node \<Rightarrow> node" where
  "drop_subdirs File = File"
| "drop_subdirs (Dir e es) = Dir e (filter (\<lambda>(name, c). \<not> isdir c) es)"

text \<open>
  The same file system with the entries of every directory in the order of their names:
  two file systems with the same canonical form hold the same entries and differ only in
  the order in which their directories enumerate them.
\<close>

fun canon :: "node \<Rightarrow> node"
  and canon_entries :: "(string \<times> node) list \<Rightarrow> (string \<times> node) list" where
  "canon File = File"
| "canon (Dir e es) = Dir e (sort_key fst (canon_entries es))"
| "canon_entries [] = []"
| "canon_entries ((name, c) # es) = (name, canon c) # canon_entries es"

section \<open>Properties of the path filter\<close>

lemma endswith_suffix: "endswith s ext \<longleftrightarrow> suffix ext s"
proof
  assume "endswith s ext"
  then have "s = take (length s - length ext) s @ ext"
    by (metis append_take_drop_id endswith_def)
  then show "suffix ext s"
    by (metis suffixI)
next
  assume "suffix ext s"
  then obtain pre where "s = pre @ ext"
    by (auto simp: suffix_def)
  then show "endswith s ext"
    by (simp add: endswith_def)
qed

text \<open>
  C2. \<^const>\<open>is_included_file\<close> accepts every name when the extension set is empty;
  otherwise it accepts exactly the names that end, character for character, with one
  of the extensions. With the whitelist \<^verbatim>\<open>{".py"}\<close>, \<^verbatim>\<open>run.py\<close> is accepted and
  \<^verbatim>\<open>run.pyc\<close> and \<^verbatim>\<open>RUN.PY\<close> are not; \<^verbatim>\<open>mycpp\<close> matches the bare token \<^verbatim>\<open>cpp\<close>.
\<close>

theorem is_included_file_suffix:
  "is_included_file filename [] \<and>
   (ft \<noteq> [] \<longrightarrow>
      is_included_file filename ft =
        (\<exists>ext \<in> set ft. \<exists>stem. filename = stem @ ext)) \<and>
   is_included_file ''run.py'' [''.py''] \<and>
   \<not> is_included_file ''run.pyc'' [''.py''] \<and>
   \<not> is_included_file ''RUN.PY'' [''.py''] \<and>
   is_included_file ''mycpp'' [''cpp'']"
  by (simp add: is_included_file_def list_ex_iff endswith_suffix suffix_def)

theorem is_included_file_suffix_witness:
  "[''.py'', ''.h''] \<noteq> [] \<and>
   is_included_file ''a.h'' [''.py'', ''.h''] \<and>
   (\<exists>ext \<in> set [''.py'', ''.h'']. \<exists>stem. ''a.h'' = stem @ ext) \<and>
   \<not> is_included_file ''a.hpp'' [''.py'', ''.h'']"
  using is_included_file_suffix [of "''a.h''" "[''.py'', ''.h'']"]
  by (simp add: is_included_file_def endswith_def)

section \<open>Properties of paths\<close>

lemma split_nonempty [simp]: "split c s \<noteq> []"
  by (induction s) (auto split: list.splits)

lemma split_append_sep: "split c (a @ c # b) = split c a @ split c b"
proof (induction a)
  case Nil
  show ?case by simp
next
  case (Cons x a)
  obtain p ps where "split c a = p # ps"
    by (cases "split c a") auto
  with Cons show ?case by simp
qed

lemma split_no_sep: "c \<notin> set s \<Longrightarrow> split c s = [s]"
  by (induction s) auto

lemma valid_name_good: "valid_name d \<Longrightarrow> good d"
  by (metis good_def valid_name_def last_in_set)

lemma valid_name_hd: "valid_name d \<Longrightarrow> \<not> (d \<noteq> [] \<and> hd d = sep)"
  by (cases d) (auto simp: valid_name_def)

lemma path_join_good:
  "valid_name d \<Longrightarrow> good p \<Longrightarrow> path_join p d = p @ sep # d"
  using valid_name_hd [of d] by (auto simp: path_join_def good_def)

lemma path_join_root: "valid_name d \<Longrightarrow> path_join [sep] d = sep # d"
  using valid_name_hd [of d] by (auto simp: path_join_def)

lemma good_append: "good d \<Longrightarrow> good (p @ sep # d)"
  by (simp add: good_def)

lemma foldl_path_join_good:
  "list_all valid_name ds \<Longrightarrow> good p \<Longrightarrow> foldl path_join p ds = p @ tail_of ds"
proof (induction ds arbitrary: p)
  case Nil
  show ?case by (simp add: tail_of_def)
next
  case (Cons d ds)
  then have "good (p @ sep # d)"
    by (simp add: good_append valid_name_good)
  with Cons show ?case
    by (simp add: path_join_good tail_of_def)
qed

lemma foldl_path_join_root:
  "list_all valid_name ds \<Longrightarrow> ds \<noteq> [] \<Longrightarrow> foldl path_join [sep] ds = tail_of ds"
proof (cases ds)
  case Nil
  then show "ds \<noteq> [] \<Longrightarrow> ?thesis" by simp
next
  case (Cons d ds')
  assume v: "list_all valid_name ds"
  then have "good (sep # d)"
    using Cons valid_name_good [of d] by (simp add: good_def)
  then have "foldl path_join (sep # d) ds' = (sep # d) @ tail_of ds'"
    using v Cons by (intro foldl_path_join_good) simp_all
  then show ?thesis
    using v Cons by (simp add: path_join_root tail_of_def)
qed

lemma split_tail_of:
  "list_all valid_name ds \<Longrightarrow> split sep (p @ tail_of ds) = split sep p @ ds"
proof (induction ds arbitrary: p)
  case Nil
  show ?case by (simp add: tail_of_def)
next
  case (Cons d ds)
  have "split sep ((p @ sep # d) @ tail_of ds) = split sep (p @ sep # d) @ ds"
    using Cons.prems by (intro Cons.IH) simp
  moreover have "split sep (p @ sep # d) = split sep p @ [d]"
    using Cons.prems by (simp add: split_append_sep split_no_sep valid_name_def)
  ultimately show ?case by (simp add: tail_of_def)
qed

lemma abs_norm_cases: "abs_norm path \<Longrightarrow> path = [sep] \<or> good path"
proof -
  assume a: "abs_norm path"
  show ?thesis
  proof (cases "path = [sep]")
    case False
    with a obtain rest where p: "path = sep # rest" and v: "list_all valid_name (split sep rest)"
      by (cases path) (auto simp: abs_norm_def)
    have "last path \<noteq> sep"
    proof
      assume "last path = sep"
      with p False obtain r where "rest = r @ [sep]"
        by (cases rest rule: rev_cases) auto
      then have "split sep rest = split sep r @ [[]]"
        by (simp add: split_append_sep)
      with v show False by (simp add: valid_name_def)
    qed
    then show ?thesis using p by (simp add: good_def)
  qed simp
qed

lemma set_split_foldl:
  assumes "abs_norm path" "list_all valid_name ds"
  shows "set (split sep (foldl path_join path ds)) = set (split sep path) \<union> set ds"
proof (cases "path = [sep]")
  case True
  show ?thesis
  proof (cases "ds = []")
    case False
    then have "foldl path_join path ds = [] @ tail_of ds"
      using assms True by (simp add: foldl_path_join_root)
    then have "split sep (foldl path_join path ds) = [[]] @ ds"
      using split_tail_of [OF assms(2), of "[]"] by simp
    then show ?thesis using True by (auto simp: sep_def)
  qed simp
next
  case False
  then have "good path" using abs_norm_cases [OF assms(1)] by simp
  then show ?thesis
    using assms by (simp add: foldl_path_join_good split_tail_of)
qed

lemma segs_foldl:
  assumes "abs_norm path" "list_all valid_name ds"
  shows "filter (\<lambda>x. x \<noteq> []) (split sep (foldl path_join path ds)) =
         filter (\<lambda>x. x \<noteq> []) (split sep path) @ ds"
proof -
  have ne: "filter (\<lambda>x. x \<noteq> []) ds = ds"
    using assms(2) by (induction ds) (auto simp: valid_name_def)
  show ?thesis
  proof (cases "path = [sep]")
    case True
    show ?thesis
    proof (cases "ds = []")
      case False
      then have "foldl path_join path ds = [] @ tail_of ds"
        using assms True by (simp add: foldl_path_join_root)
      then have "split sep (foldl path_join path ds) = [[]] @ ds"
        using split_tail_of [OF assms(2), of "[]"] by simp
      then show ?thesis using True ne by (simp add: sep_def)
    qed simp
  next
    case False
    then have "good path" using abs_norm_cases [OF assms(1)] by simp
    then show ?thesis
      using assms ne by (simp add: foldl_path_join_good split_tail_of)
  qed
qed

lemma commonprefix_append: "commonprefix xs (xs @ ys) = length xs"
  by (induction xs) auto

lemma str_join_tail_of:
  "str_join [sep] (d # ds) = d @ tail_of ds"
  by (induction ds arbitrary: d) (auto simp: tail_of_def)

lemma relpath_foldl:
  assumes "abs_norm path" "list_all valid_name ds" "ds \<noteq> []"
  shows "relpath (foldl path_join path ds) path = str_join [sep] ds"
proof -
  obtain d ds' where ds: "ds = d # ds'" using assms(3) by (cases ds) auto
  have "path_join_all d ds' = d @ tail_of ds'"
    unfolding path_join_all_def
    using assms(2) ds by (intro foldl_path_join_good) (simp_all add: valid_name_good)
  then show ?thesis
    unfolding relpath_def segs_foldl [OF assms(1,2)]
    by (simp add: commonprefix_append ds str_join_tail_of Let_def)
qed

lemma split_str_join:
  assumes "list_all valid_name ds" "ds \<noteq> []"
  shows "split sep (str_join [sep] ds) = ds"
proof -
  obtain d ds' where ds: "ds = d # ds'" using assms(2) by (cases ds) auto
  have "split sep (d @ tail_of ds') = split sep d @ ds'"
    using assms(1) ds by (intro split_tail_of) simp
  then show ?thesis
    using assms(1) ds by (simp add: str_join_tail_of split_no_sep valid_name_def)
qed

lemma foldl_path_join_abs:
  assumes "abs_norm path" "list_all valid_name ds" "ds \<noteq> []"
  shows "foldl path_join path ds = proj_prefix path @ str_join [sep] ds"
proof -
  obtain d ds' where ds: "ds = d # ds'" using assms(3) by (cases ds) auto
  show ?thesis
  proof (cases "path = [sep]")
    case True
    then have "foldl path_join path ds = tail_of ds"
      using assms by (simp add: foldl_path_join_root)
    then show ?thesis
      using True by (simp add: proj_prefix_def ds str_join_tail_of tail_of_def)
  next
    case False
    then have "good path" using abs_norm_cases [OF assms(1)] by simp
    then have "foldl path_join path ds = path @ tail_of ds"
      using assms by (simp add: foldl_path_join_good)
    then show ?thesis
      using False by (simp add: proj_prefix_def ds str_join_tail_of tail_of_def)
  qed
qed

section \<open>Properties of scanning\<close>

lemma walk_pairs_simps [simp]:
  "walk_pairs [] = []"
  "walk_pairs ((root, dirs, files) # ts) = map (Pair root) files @ walk_pairs ts"
  "walk_pairs (ts @ us) = walk_pairs ts @ walk_pairs us"
  by (simp_all add: walk_pairs_def)

lemma scan_steps_pairs:
  "concat (map (scan_step path ex fts) ts) =
     map (\<lambda>(root, file). (path_join root file, relpath (path_join root file) path))
       (filter (keep_file ex fts) (walk_pairs ts))"
proof (induction ts)
  case Nil
  show ?case by simp
next
  case (Cons t ts)
  obtain root dirs files where t: "t = (root, dirs, files)" by (cases t)
  show ?case
    unfolding t using Cons
    by (simp add: scan_step_def keep_file_def filter_map comp_def)
qed

lemma all_files_nonempty:
  "segs \<in> set (all_files n) \<Longrightarrow> segs \<noteq> []"
  "segs \<in> set (all_files_entries es) \<Longrightarrow> segs \<noteq> []"
  by (induction n and es arbitrary: segs and segs rule: all_files_all_files_entries.induct)
     (auto split: if_splits)

lemma walk_pairs_all_files:
  "walk_pairs (walk tp n) =
     map (\<lambda>segs. (foldl path_join tp (butlast segs), last segs)) (all_files n)"
  "walk_pairs (walk_dirs tp es) =
     map (\<lambda>segs. (foldl path_join tp (butlast segs), last segs)) (all_files_entries es)"
proof (induction tp n and tp es rule: walk_walk_dirs.induct)
  case (5 tp name c es)
  have "map (\<lambda>segs. (foldl path_join (path_join tp name) (butlast segs), last segs)) (all_files c) =
        map (\<lambda>segs. (foldl path_join tp (butlast segs), last segs)) (map ((#) name) (all_files c))"
    using all_files_nonempty(1) [of _ c] by (auto simp: comp_def)
  with 5 show ?case by (cases "isdir c") simp_all
qed (simp_all add: comp_def)

lemma all_files_valid:
  "wf_node n \<Longrightarrow> segs \<in> set (all_files n) \<Longrightarrow> list_all valid_name segs"
  "wf_entries es \<Longrightarrow> segs \<in> set (all_files_entries es) \<Longrightarrow> list_all valid_name segs"
proof (induction n and es arbitrary: segs and segs rule: all_files_all_files_entries.induct)
  case (3 es)
  have "wf_entries es \<Longrightarrow> (name, c) \<in> set es \<Longrightarrow> valid_name name" for name c
    by (induction es) auto
  with 3 show ?case by auto
qed (auto split: if_splits)

lemma all_files_entries_shape:
  "segs \<in> set (all_files_entries es) \<Longrightarrow> hd segs \<in> fst ` set es \<and> tl segs \<noteq> []"
proof (induction es)
  case (Cons e es)
  obtain name c where e: "e = (name, c)" by (cases e)
  show ?case
    using Cons all_files_nonempty(1) [of _ c] unfolding e
    by (auto split: if_splits)
qed simp

lemma all_files_distinct:
  "wf_node n \<Longrightarrow> distinct (all_files n)"
  "distinct (map fst es) \<Longrightarrow> wf_entries es \<Longrightarrow> distinct (all_files_entries es)"
proof (induction n and es rule: all_files_all_files_entries.induct)
  case (3 es)
  have 1: "distinct (map (\<lambda>f. [f]) (map fst (filter (\<lambda>(name, c). \<not> isdir c) es)))"
    using 3(2) by (simp add: distinct_map_filter distinct_map inj_on_def)
  have 2: "set (map (\<lambda>f. [f]) (map fst (filter (\<lambda>(name, c). \<not> isdir c) es))) \<inter>
           set (all_files_entries es) = {}"
  proof -
    have False if "[f] \<in> set (all_files_entries es)" for f
      using all_files_entries_shape [OF that] by simp
    then show ?thesis by auto
  qed
  show ?case
    using 3 1 2 by simp
next
  case (5 name c es)
  have "set (map ((#) name) (all_files c)) \<inter> set (all_files_entries es) = {}"
  proof -
    have False if "name # segs \<in> set (all_files_entries es)" for segs
      using all_files_entries_shape [OF that] 5(3) by simp
    then show ?thesis by auto
  qed
  then show ?case
    using 5 by (auto simp: distinct_map)
qed simp_all


lemma file_paths_all_files:
  "file_paths path ex fts n =
     map (\<lambda>segs. (foldl path_join path segs, relpath (foldl path_join path segs) path))
       (filter (\<lambda>segs. keep_file ex fts (foldl path_join path (butlast segs), last segs))
          (all_files n))"
proof -
  have "path_join (foldl path_join path (butlast segs)) (last segs) = foldl path_join path segs"
    if "segs \<in> set (all_files n)" for segs
  proof -
    have "segs = butlast segs @ [last segs]"
      using all_files_nonempty(1) [OF that] by simp
    then show ?thesis
      by (metis foldl_append foldl_Cons foldl_Nil)
  qed
  then show ?thesis
    unfolding file_paths_def scan_steps_pairs walk_pairs_all_files
    by (simp add: filter_map comp_def cong: map_cong)
qed

lemma file_paths_rel:
  assumes "abs_norm path" "wf_node n"
  shows "file_paths path ex fts n =
     map (\<lambda>rel. (proj_prefix path @ rel, rel))
       (map (str_join [sep])
          (filter (\<lambda>segs. keep_file ex fts (foldl path_join path (butlast segs), last segs))
             (all_files n)))"
proof -
  have a: "foldl path_join path segs = proj_prefix path @ str_join [sep] segs"
    if "segs \<in> set (all_files n)" for segs
    using that assms all_files_valid(1) all_files_nonempty(1) by (intro foldl_path_join_abs)
  have "relpath (foldl path_join path segs) path = str_join [sep] segs"
    if "segs \<in> set (all_files n)" for segs
    using that assms all_files_valid(1) all_files_nonempty(1) by (intro relpath_foldl)
  then have b: "relpath (proj_prefix path @ str_join [sep] segs) path = str_join [sep] segs"
    if "segs \<in> set (all_files n)" for segs
    using that a by simp
  show ?thesis
    unfolding file_paths_all_files map_map comp_def
    by (rule map_cong [OF refl]) (simp add: a b)
qed

lemma str_join_inj:
  assumes "wf_node n"
  shows "inj_on (str_join [sep]) (set (all_files n))"
proof (rule inj_onI)
  fix xs ys
  assume "xs \<in> set (all_files n)" "ys \<in> set (all_files n)"
    and eq: "str_join [sep] xs = str_join [sep] ys"
  have "split sep (str_join [sep] xs) = xs"
    using \<open>xs \<in> set (all_files n)\<close> assms all_files_valid(1) all_files_nonempty(1)
    by (intro split_str_join)
  moreover have "split sep (str_join [sep] ys) = ys"
    using \<open>ys \<in> set (all_files n)\<close> assms all_files_valid(1) all_files_nonempty(1)
    by (intro split_str_join)
  ultimately show "xs = ys" using eq by metis
qed

lemma append_le_mono: "(r1 :: string) \<le> r2 \<Longrightarrow> p @ r1 \<le> p @ r2"
  by (induction p) simp_all

lemma sort_with_prefix:
  "sort (map (\<lambda>rel. (p @ rel, rel)) (rels :: string list)) = map (\<lambda>rel. (p @ rel, rel)) (sort rels)"
proof (rule properties_for_sort)
  show "mset (map (\<lambda>rel. (p @ rel, rel)) (sort rels)) = mset (map (\<lambda>rel. (p @ rel, rel)) rels)"
    by simp
  have "sorted_wrt (\<lambda>x y. (p @ x, x) \<le> (p @ y, y)) (sort rels)"
    by (rule sorted_wrt_mono_rel [of _ "(\<le>)"])
       (auto simp: less_eq_prod_def append_le_mono)
  then show "sorted (map (\<lambda>rel. (p @ rel, rel)) (sort rels))"
    by (simp add: sorted_map)
qed

text \<open>
  C3. For an absolute project path and a file system whose directories hold each name
  once, the list returned by \<^const>\<open>scan_directory\<close> is strictly increasing in its second
  components, the relative paths, under the lexicographic order of strings: the pairs are
  sorted by absolute path first, and every absolute path is the same text followed by
  the relative path.
\<close>

theorem scan_directory_sorted_by_relative_path:
  assumes "abs_norm path" "wf_node n"
  shows "sorted_wrt (<) (map snd (scan_directory path ex fts n))"
proof -
  let ?keep = "\<lambda>segs. keep_file ex fts (foldl path_join path (butlast segs), last segs)"
  let ?rels = "map (str_join [sep]) (filter ?keep (all_files n))"
  have "inj_on (str_join [sep]) (set (filter ?keep (all_files n)))"
    using str_join_inj [OF assms(2)] by (rule inj_on_subset) auto
  then have d: "distinct ?rels"
    using all_files_distinct(1) [OF assms(2)] by (simp add: distinct_map)
  have "map snd (scan_directory path ex fts n) = sort ?rels"
    unfolding scan_directory_def file_paths_rel [OF assms] sort_with_prefix
    by (simp add: comp_def)
  then show ?thesis
    using d by (simp add: strict_sorted_iff)
qed

theorem scan_directory_sorted_by_relative_path_witness:
  "abs_norm ''/proj'' \<and>
   wf_node (Dir None [(''sub'', Dir None [(''c.py'', File)]), (''b.txt'', File), (''a.py'', File)]) \<and>
   sorted_wrt (<)
     (map snd (scan_directory ''/proj'' [''venv''] []
        (Dir None [(''sub'', Dir None [(''c.py'', File)]), (''b.txt'', File), (''a.py'', File)]))) \<and>
   scan_directory ''/proj'' [''venv''] []
     (Dir None [(''sub'', Dir None [(''c.py'', File)]), (''b.txt'', File), (''a.py'', File)]) =
     [(''/proj/a.py'', ''a.py''), (''/proj/b.txt'', ''b.txt''), (''/proj/sub/c.py'', ''sub/c.py'')]"
proof -
  let ?n = "Dir None [(''sub'', Dir None [(''c.py'', File)]), (''b.txt'', File), (''a.py'', File)]"
  have a: "abs_norm ''/proj''" by code_simp
  have w: "wf_node ?n" by code_simp
  have v: "scan_directory ''/proj'' [''venv''] [] ?n =
     [(''/proj/a.py'', ''a.py''), (''/proj/b.txt'', ''b.txt''), (''/proj/sub/c.py'', ''sub/c.py'')]"
    by code_simp
  show ?thesis
    using a w v scan_directory_sorted_by_relative_path [OF a w, of "[''venv'']" "[]"] by simp
qed

lemma keep_file_no_excluded:
  assumes "abs_norm path" "wf_node n" "segs \<in> set (all_files n)"
    and k: "keep_file ex fts (foldl path_join path (butlast segs), last segs)"
  shows "set segs \<inter> set ex = {}"
proof -
  have v: "list_all valid_name segs" and ne: "segs \<noteq> []"
    using all_files_valid(1) [OF assms(2,3)] all_files_nonempty(1) [OF assms(3)] by auto
  have vb: "list_all valid_name (butlast segs)"
    using v by (metis in_set_butlastD list_all_iff)
  have "set (butlast segs) \<inter> set ex = {}"
    using k set_split_foldl [OF assms(1) vb]
    by (auto simp: keep_file_def should_skip_path_def list_ex_iff)
  moreover have "last segs \<notin> set ex"
    using k by (simp add: keep_file_def should_skip_file_def)
  moreover have "set segs = set (butlast segs) \<union> {last segs}"
    using ne by (metis append_butlast_last_id set_append list.set(1,2) Un_insert_right sup_bot.right_neutral)
  ultimately show ?thesis by auto
qed

lemma scan_directory_segments:
  assumes "abs_norm path" "wf_node n"
    and "(a, rel) \<in> set (scan_directory path ex fts n)"
  shows "set (split sep rel) \<inter> set ex = {}"
proof -
  from assms(3) obtain segs where
    segs: "segs \<in> set (all_files n)" and rel: "rel = str_join [sep] segs" and
    k: "keep_file ex fts (foldl path_join path (butlast segs), last segs)"
    unfolding scan_directory_def file_paths_rel [OF assms(1,2)] by auto
  have "split sep rel = segs"
    unfolding rel
    using all_files_valid(1) [OF assms(2) segs] all_files_nonempty(1) [OF segs]
    by (rule split_str_join)
  then show ?thesis
    using keep_file_no_excluded [OF assms(1,2) segs k] by simp
qed

lemma isdir_prune [simp]: "isdir (prune ex c) = isdir c"
  by (cases c) auto

lemma all_files_prune:
  "all_files (prune ex n) = filter (\<lambda>segs. set segs \<inter> set ex = {}) (all_files n)"
  "all_files_entries (prune_entries ex es) =
     filter (\<lambda>segs. set segs \<inter> set ex = {}) (all_files_entries es)"
proof (induction n and es rule: all_files_all_files_entries.induct)
  case (3 es)
  have "map fst (filter (\<lambda>(name, c). \<not> isdir c) (prune_entries ex es)) =
        filter (\<lambda>name. name \<notin> set ex) (map fst (filter (\<lambda>(name, c). \<not> isdir c) es))"
    by (induction es) auto
  with 3 show ?case by (simp add: filter_map comp_def)
next
  case (5 name c es)
  then show ?case by (auto simp: filter_map comp_def)
qed simp_all

lemma scan_directory_prune:
  assumes "abs_norm path" "wf_node n"
  shows "scan_directory path ex fts (prune ex n) = scan_directory path ex fts n"
proof -
  let ?k = "\<lambda>segs. keep_file ex fts (foldl path_join path (butlast segs), last segs)"
  have "filter ?k (filter (\<lambda>segs. set segs \<inter> set ex = {}) (all_files n)) = filter ?k (all_files n)"
    unfolding filter_filter
    by (rule filter_cong) (use keep_file_no_excluded [OF assms] in auto)
  then show ?thesis
    by (simp add: scan_directory_def file_paths_all_files all_files_prune)
qed

lemma scan_directory_root_skipped:
  assumes "abs_norm path" "wf_node n" "should_skip_path path ex"
  shows "scan_directory path ex fts n = []"
proof -
  have "\<not> keep_file ex fts (foldl path_join path (butlast segs), last segs)"
    if "segs \<in> set (all_files n)" for segs
  proof -
    have "list_all valid_name (butlast segs)"
      using all_files_valid(1) [OF assms(2) that] by (metis in_set_butlastD list_all_iff)
    then have "set (split sep path) \<subseteq> set (split sep (foldl path_join path (butlast segs)))"
      using set_split_foldl [OF assms(1)] by simp
    then have "should_skip_path (foldl path_join path (butlast segs)) ex"
      using assms(3) by (auto simp: should_skip_path_def list_ex_iff)
    then show ?thesis by (simp add: keep_file_def)
  qed
  then have "filter (\<lambda>segs. keep_file ex fts (foldl path_join path (butlast segs), last segs))
               (all_files n) = []"
    by (simp add: filter_empty_conv)
  then show ?thesis
    by (simp add: scan_directory_def file_paths_all_files)
qed

section \<open>Properties of combining\<close>

lemma foldl_combine_step:
  "foldl (combine_step r) (cc, pr) fps =
     (cc @ concat (map (file_block r) fps), pr @ concat (map (read_warning r) fps))"
proof (induction fps arbitrary: cc pr)
  case Nil
  show ?case by simp
next
  case (Cons fp fps)
  have "combine_step r (cc, pr) fp = (cc @ file_block r fp, pr @ read_warning r fp)"
    by (simp add: combine_step_def file_block_def read_warning_def split: prod.splits sum.splits)
  then show ?case
    by (simp add: Cons.IH)
qed

lemma combine_files_blocks:
  "combine_files r fps pp tree ex fts inc =
     (str_join [CHR 0x0A]
        (header_lines pp ex fts @ (if inc then tree_section tree else []) @
         concat (map (file_block r) fps)),
      concat (map (read_warning r) fps))"
  by (simp add: combine_files_def foldl_combine_step)

text \<open>
  C4. When reading (or decoding) one of the collected files raises, \<^const>\<open>combine_files\<close>
  prints the warning for it and goes on. The text it returns is the header (and the tree
  section, if asked for) followed by the blocks of the files before and of the files after
  the failed one, each readable file with its banner, header, banner, content and
  separator; the failed file has no part in it. The lines printed are the warnings of the
  files before, the warning for this file, and the warnings of the files after.
\<close>

theorem combine_files_skips_unreadable:
  assumes "r abs_path = Inl e"
  shows "combine_files r (before @ (abs_path, rel_path) # after) pp tree ex fts inc =
     (str_join [CHR 0x0A]
        (header_lines pp ex fts @ (if inc then tree_section tree else []) @
         concat (map (file_block r) before) @ concat (map (file_block r) after)),
      concat (map (read_warning r) before) @
      [''Warning: Error reading '' @ abs_path @ '': '' @ e] @
      concat (map (read_warning r) after))"
  using assms by (simp add: combine_files_blocks file_block_def read_warning_def)

theorem combine_files_skips_unreadable_witness:
  "combine_files (\<lambda>p. if p = ''/p/b'' then Inl ''denied'' else Inr (''text of '' @ p))
     [(''/p/a'', ''a''), (''/p/b'', ''b''), (''/p/c'', ''c'')] ''/p'' [] [''venv''] [] False =
   (str_join [CHR 0x0A]
      [''# Combined Project Files'',
       ''# Project Path: /p'',
       ''# Generated by ProjectCombiner'',
       ''#'',
       ''# Excluded items (directories and files):'',
       ''# venv'',
       ''#'',
       ''# Included file types:'',
       ''# All files'',
       replicate 80 CHR ''#'', ''# File: a'', replicate 80 CHR ''#'', ''text of /p/a'', [CHR 0x0A],
       replicate 80 CHR ''#'', ''# File: c'', replicate 80 CHR ''#'', ''text of /p/c'', [CHR 0x0A]],
    [''Warning: Error reading /p/b: denied''])"
  using combine_files_skips_unreadable
    [of "\<lambda>p. if p = ''/p/b'' then Inl ''denied'' else Inr (''text of '' @ p)" "''/p/b''"
        "''denied''" "[(''/p/a'', ''a'')]" "''b''" "[(''/p/c'', ''c'')]" "''/p''" "[]"
        "[''venv'']" "[]" False]
  by (simp add: file_block_def read_warning_def header_lines_def banner_def)

section \<open>Properties of the tree\<close>

lemma child_size: "child n name = Some c \<Longrightarrow> size c < size n"
proof -
  have "size c < Suc (size_list (size_prod (\<lambda>x. 0) size) es)"
    if "(name, c) \<in> set es" for es
    using that by (induction es) auto
  then show "child n name = Some c \<Longrightarrow> size c < size n"
    by (cases n) (auto dest!: map_of_SomeD)
qed

lemma add_to_tree_unfold:
  "add_to_tree ex fts p pfx n =
     (case listdir n of
        Inl e \<Rightarrow> (if e = PermissionError then Inr [] else Inl e)
      | Inr entries \<Rightarrow>
          tree_loop pfx (filtered_entries ex fts p n (sort entries)) (subtree ex fts p n))"
  unfolding tree_loop_def subtree_def
  by (subst add_to_tree.simps) (rule refl)

lemma tree_loop_cong:
  assumes "\<And>entry q. entry \<in> set fe \<Longrightarrow> f entry q = g entry q"
  shows "tree_loop pfx fe f = tree_loop pfx fe g"
  unfolding tree_loop_def
  by (rule arg_cong [where f = seq_lines], rule map_cong [OF refl])
     (auto simp: in_set_enumerate_eq assms)

lemma hide_child:
  "map_of (hide_denied_entries es) name = map_option hide_denied (map_of es name)"
  by (induction es) auto

lemma hide_names: "map fst (hide_denied_entries es) = map fst es"
  by (induction es) auto

lemma isdir_hide [simp]: "isdir (hide_denied c) = isdir c"
  by (cases c) auto

lemma filtered_hide:
  "filtered_entries ex fts p (Dir None (hide_denied_entries es)) xs = filtered_entries ex fts p (Dir None es) xs"
  unfolding filtered_entries_def
  by (rule filter_cong) (auto simp: hide_child split: option.splits)

lemma add_to_tree_denied: "add_to_tree ex fts p pfx (Dir (Some PermissionError) es) = Inr []"
  by (simp add: add_to_tree_unfold)

lemma add_to_tree_hide:
  "add_to_tree ex fts p pfx (hide_denied n) = add_to_tree ex fts p pfx n"
proof (induction n arbitrary: p pfx rule: measure_induct_rule [where f = size])
  case (less n)
  show ?case
  proof (cases n)
    case File
    then show ?thesis by simp
  next
    case (Dir e es)
    show ?thesis
    proof (cases "e = Some PermissionError")
      case True
      then show ?thesis
        using Dir by (simp add: add_to_tree_unfold filtered_entries_def tree_loop_def)
    next
      case False
      have "subtree ex fts p (Dir e (hide_denied_entries es)) entry q =
            subtree ex fts p (Dir e es) entry q" for entry q
        using less.IH [of _ "path_join p entry" q] child_size [of n entry] Dir
        by (auto simp: subtree_def hide_child split: option.splits)
      then have "subtree ex fts p (Dir e (hide_denied_entries es)) = subtree ex fts p (Dir e es)"
        by (intro ext)
      then show ?thesis
        using Dir False
        by (cases e) (simp_all add: add_to_tree_unfold hide_names filtered_hide)
    qed
  qed
qed

lemma seq_lines_no_sub: "seq_lines (map (\<lambda>x. (f x, Inr [])) xs) = Inr (map f xs)"
  by (induction xs) simp_all

lemma tree_loop_flat:
  assumes "\<And>entry q. entry \<in> set fe \<Longrightarrow> rec entry q = Inr []"
  shows "tree_loop pfx fe rec =
         Inr (map (\<lambda>(i, entry). tree_line pfx (i = length fe - 1) entry) (enumerate 0 fe))"
proof -
  have "tree_loop pfx fe rec = tree_loop pfx fe (\<lambda>entry q. Inr [])"
    by (rule tree_loop_cong) (rule assms)
  also have "\<dots> = Inr (map (\<lambda>(i, entry). tree_line pfx (i = length fe - 1) entry) (enumerate 0 fe))"
    unfolding tree_loop_def
    using seq_lines_no_sub [of "\<lambda>(i, entry). tree_line pfx (i = length fe - 1) entry" "enumerate 0 fe"]
    by (simp add: case_prod_unfold)
  finally show ?thesis .
qed

lemma add_to_tree_flat:
  assumes "list_all (\<lambda>(name, c). file_or_denied c) es"
  shows "add_to_tree ex fts p pfx (Dir None es) =
     Inr (map (\<lambda>(i, entry).
                 tree_line pfx
                   (i = length (filtered_entries ex fts p (Dir None es) (sort (map fst es))) - 1)
                   entry)
            (enumerate 0 (filtered_entries ex fts p (Dir None es) (sort (map fst es)))))"
proof -
  have "subtree ex fts p (Dir None es) entry q = Inr []" for entry q
  proof (cases "map_of es entry")
    case None
    then show ?thesis by (simp add: subtree_def)
  next
    case (Some c)
    then have "file_or_denied c"
      using assms map_of_SomeD [OF Some] by (auto simp: list_all_iff)
    then show ?thesis
      using Some by (cases c) (simp_all add: subtree_def add_to_tree_denied)
  qed
  then show ?thesis
    by (simp add: add_to_tree_unfold tree_loop_flat)
qed

text \<open>
  C7. A directory whose listing raises \<^verbatim>\<open>PermissionError\<close> contributes no line for
  anything inside it and no error, whatever it holds, and the whole tree is rendered as
  if each such directory were empty. In a directory whose entries are files and such
  directories, every entry that passes the filters, a denied directory as well, has its
  one line, in the order of the names, the last one with the closing branch: the entries
  after a denied directory are rendered as usual.
\<close>

theorem generate_tree_permission_denied:
  "add_to_tree ex fts p pfx (Dir (Some PermissionError) sub) = Inr [] \<and>
   generate_tree path ex fts (hide_denied n) = generate_tree path ex fts n \<and>
   (list_all (\<lambda>(name, c). file_or_denied c) es \<longrightarrow>
      generate_tree path ex fts (Dir None es) =
        Inr ((''Directory structure of: '' @ path) #
             map (\<lambda>(i, entry).
                    tree_line []
                      (i = length (filtered_entries ex fts path (Dir None es) (sort (map fst es))) - 1)
                      entry)
               (enumerate 0 (filtered_entries ex fts path (Dir None es) (sort (map fst es))))))"
  by (simp add: add_to_tree_denied generate_tree_def add_to_tree_hide add_to_tree_flat)

theorem generate_tree_permission_denied_witness:
  "list_all (\<lambda>(name, c). file_or_denied c)
     [(''z.py'', File), (''locked'', Dir (Some PermissionError) [(''secret.py'', File)]),
      (''a.py'', File)] \<and>
   generate_tree ''/proj'' [''venv''] [''.py'']
     (Dir None [(''z.py'', File), (''locked'', Dir (Some PermissionError) [(''secret.py'', File)]),
                (''a.py'', File)]) =
     Inr [''Directory structure of: /proj'',
          branch_mid @ ''a.py'',
          branch_mid @ ''locked'',
          branch_last @ ''z.py''] \<and>
   generate_tree ''/proj'' [''venv''] [''.py'']
     (Dir None [(''src'', Dir None [(''locked'', Dir (Some PermissionError) [(''secret.py'', File)]),
                                    (''m.py'', File)]),
                (''z.py'', File)]) =
     Inr [''Directory structure of: /proj'',
          branch_mid @ ''src'',
          bar_prefix @ branch_mid @ ''locked'',
          bar_prefix @ branch_last @ ''m.py'',
          branch_last @ ''z.py'']"
proof -
  let ?es = "[(''z.py'', File), (''locked'', Dir (Some PermissionError) [(''secret.py'', File)]),
              (''a.py'', File)]"
  let ?n = "Dir None [(''src'', Dir None [(''locked'', Dir (Some PermissionError) [(''secret.py'', File)]),
                                          (''m.py'', File)]),
                      (''z.py'', File)]"
  have f: "list_all (\<lambda>(name, c). file_or_denied c) ?es" by simp
  have k: "filtered_entries [''venv''] [''.py''] ''/proj'' (Dir None ?es) (sort (map fst ?es)) =
           [''a.py'', ''locked'', ''z.py'']"
    by code_simp
  have h: "generate_tree ''/proj'' [''venv''] [''.py''] (hide_denied ?n) =
     Inr [''Directory structure of: /proj'',
          branch_mid @ ''src'',
          bar_prefix @ branch_mid @ ''locked'',
          bar_prefix @ branch_last @ ''m.py'',
          branch_last @ ''z.py'']"
    by code_simp
  note inst = generate_tree_permission_denied
      [of "[''venv'']" "[''.py'']" "''/proj''" "[]" "[]" "''/proj''" ?n ?es]
  have flat: "generate_tree ''/proj'' [''venv''] [''.py''] (Dir None ?es) =
     Inr [''Directory structure of: /proj'',
          branch_mid @ ''a.py'', branch_mid @ ''locked'', branch_last @ ''z.py'']"
    using inst [THEN conjunct2, THEN conjunct2, THEN mp, OF f] unfolding k
    by (simp add: tree_line_def)
  have deep: "generate_tree ''/proj'' [''venv''] [''.py''] ?n =
     Inr [''Directory structure of: /proj'',
          branch_mid @ ''src'',
          bar_prefix @ branch_mid @ ''locked'',
          bar_prefix @ branch_last @ ''m.py'',
          branch_last @ ''z.py'']"
    using inst [THEN conjunct2, THEN conjunct1] h by simp
  show ?thesis
    using f flat deep by blast
qed

lemma prune_names: "map fst (prune_entries ex es) = filter (\<lambda>name. name \<notin> set ex) (map fst es)"
  by (induction es) auto

lemma prune_map_of:
  "map_of (prune_entries ex es) name =
     (if name \<in> set ex then None else map_option (prune ex) (map_of es name))"
  by (induction es) auto

lemma entry_in_path_join:
  assumes "valid_name entry"
  shows "entry \<in> set (split sep (path_join p entry))"
proof -
  have s: "split sep entry = [entry]"
    using assms by (simp add: split_no_sep valid_name_def)
  consider "p = []" | q where "p = q @ [sep]" | "good p"
    by (cases p rule: rev_cases) (auto simp: good_def)
  then show ?thesis
  proof cases
    case 1
    then show ?thesis
      using assms valid_name_hd [OF assms] s by (auto simp: path_join_def)
  next
    case 2
    then have "path_join p entry = q @ sep # entry"
      using valid_name_hd [OF assms] by (auto simp: path_join_def)
    then show ?thesis by (simp add: split_append_sep s)
  next
    case 3
    then show ?thesis
      using assms by (simp add: path_join_good split_append_sep s)
  qed
qed

lemma wf_entries_member:
  "wf_entries es \<Longrightarrow> (name, c) \<in> set es \<Longrightarrow> valid_name name \<and> wf_node c"
  by (induction es) auto

lemma wf_child:
  "wf_node n \<Longrightarrow> child n name = Some c \<Longrightarrow> valid_name name \<and> wf_node c"
  by (cases n) (auto dest!: map_of_SomeD wf_entries_member)

lemma filtered_prune:
  assumes "wf_entries es"
  shows "filtered_entries ex fts p (Dir None (prune_entries ex es))
           (sort (map fst (prune_entries ex es))) =
         filtered_entries ex fts p (Dir None es) (sort (map fst es))"
proof -
  have "filter (\<lambda>name. name \<notin> set ex) (filtered_entries ex fts p (Dir None es) xs) =
        filtered_entries ex fts p (Dir None es) xs" if "set xs \<subseteq> fst ` set es" for xs
  proof -
    have "x \<notin> set ex" if "x \<in> set (filtered_entries ex fts p (Dir None es) xs)" for x
    proof (cases "map_of es x")
      case None
      then show ?thesis
        using that by (auto simp: filtered_entries_def should_skip_file_def)
    next
      case (Some c)
      then have "valid_name x"
        using assms wf_entries_member map_of_SomeD by fastforce
      then have "x \<in> set ex \<Longrightarrow> should_skip_path (path_join p x) ex"
        using entry_in_path_join [of x p] by (auto simp: should_skip_path_def list_ex_iff)
      then show ?thesis
        using that Some by (auto simp: filtered_entries_def should_skip_file_def split: if_splits)
    qed
    then show ?thesis by (simp add: filter_id_conv)
  qed
  then have "filtered_entries ex fts p (Dir None es) (sort (map fst es)) =
             filter (\<lambda>name. name \<notin> set ex)
               (filtered_entries ex fts p (Dir None es) (sort (map fst es)))"
    by simp
  also have "\<dots> = filtered_entries ex fts p (Dir None (prune_entries ex es))
                     (sort (map fst (prune_entries ex es)))"
    unfolding prune_names filter_sort [symmetric] filtered_entries_def filter_filter
    by (rule filter_cong) (auto simp: prune_map_of split: option.splits)
  finally show ?thesis by simp
qed

lemma add_to_tree_prune:
  "wf_node n \<Longrightarrow> add_to_tree ex fts p pfx (prune ex n) = add_to_tree ex fts p pfx n"
proof (induction n arbitrary: p pfx rule: measure_induct_rule [where f = size])
  case (less n)
  show ?case
  proof (cases n)
    case File
    then show ?thesis by simp
  next
    case (Dir e es)
    show ?thesis
    proof (cases e)
      case (Some err)
      then show ?thesis using Dir by (simp add: add_to_tree_unfold)
    next
      case None
      have wf: "wf_entries es" using less.prems Dir by simp
      let ?fe = "filtered_entries ex fts p (Dir None es) (sort (map fst es))"
      have sub: "subtree ex fts p (Dir None (prune_entries ex es)) entry q =
                 subtree ex fts p (Dir None es) entry q" if "entry \<in> set ?fe" for entry q
      proof -
        have "entry \<in> set (filtered_entries ex fts p (Dir None (prune_entries ex es))
                (sort (map fst (prune_entries ex es))))"
          using that filtered_prune [OF wf] by simp
        then have "entry \<notin> set ex"
          by (auto simp: filtered_entries_def prune_names)
        then show ?thesis
          using less.IH [of _ "path_join p entry" q] child_size [of n entry]
            wf_child [OF less.prems, of entry] Dir None
          by (auto simp: subtree_def prune_map_of split: option.splits)
      qed
      have "tree_loop pfx ?fe (subtree ex fts p (Dir None (prune_entries ex es))) =
            tree_loop pfx ?fe (subtree ex fts p (Dir None es))"
        by (rule tree_loop_cong) (rule sub)
      then show ?thesis
        unfolding Dir None
        by (simp add: add_to_tree_unfold filtered_prune [OF wf])
    qed
  qed
qed


text \<open>
  C1. For an absolute project path and a file system whose names are valid and unique
  within their directory: no relative path in the list returned by
  \<^const>\<open>scan_directory\<close> has a segment that is a member of the exclusion set; and both that
  list and the lines of \<^const>\<open>generate_tree\<close> are what they would be if every entry with
  such a name, with all it holds, were not there. The extension filter is arbitrary.
\<close>

theorem excluded_segment_never_listed:
  assumes "abs_norm path" "wf_node n"
  shows "(\<forall>(a, rel) \<in> set (scan_directory path ex fts n). set (split sep rel) \<inter> set ex = {}) \<and>
         scan_directory path ex fts (prune ex n) = scan_directory path ex fts n \<and>
         generate_tree path ex fts (prune ex n) = generate_tree path ex fts n"
proof (intro conjI)
  show "\<forall>(a, rel) \<in> set (scan_directory path ex fts n). set (split sep rel) \<inter> set ex = {}"
    using scan_directory_segments [OF assms] by fast
  show "scan_directory path ex fts (prune ex n) = scan_directory path ex fts n"
    by (rule scan_directory_prune [OF assms])
  show "generate_tree path ex fts (prune ex n) = generate_tree path ex fts n"
    by (simp add: generate_tree_def add_to_tree_prune [OF assms(2)])
qed

theorem excluded_segment_never_listed_witness:
  "abs_norm ''/proj'' \<and>
   wf_node (Dir None [(''venv'', Dir None [(''ignored.py'', File)]),
                      (''sub'', Dir None [(''c.py'', File), (''venv'', File)]),
                      (''a.py'', File)]) \<and>
   scan_directory ''/proj'' [''venv''] [''.py'']
     (Dir None [(''venv'', Dir None [(''ignored.py'', File)]),
                (''sub'', Dir None [(''c.py'', File), (''venv'', File)]),
                (''a.py'', File)]) =
     [(''/proj/a.py'', ''a.py''), (''/proj/sub/c.py'', ''sub/c.py'')] \<and>
   prune [''venv'']
     (Dir None [(''venv'', Dir None [(''ignored.py'', File)]),
                (''sub'', Dir None [(''c.py'', File), (''venv'', File)]),
                (''a.py'', File)]) =
     Dir None [(''sub'', Dir None [(''c.py'', File)]), (''a.py'', File)] \<and>
   generate_tree ''/proj'' [''venv''] [''.py'']
     (Dir None [(''sub'', Dir None [(''c.py'', File)]), (''a.py'', File)]) =
   generate_tree ''/proj'' [''venv''] [''.py'']
     (Dir None [(''venv'', Dir None [(''ignored.py'', File)]),
                (''sub'', Dir None [(''c.py'', File), (''venv'', File)]),
                (''a.py'', File)])"
proof -
  let ?n = "Dir None [(''venv'', Dir None [(''ignored.py'', File)]),
                      (''sub'', Dir None [(''c.py'', File), (''venv'', File)]),
                      (''a.py'', File)]"
  have a: "abs_norm ''/proj''" by code_simp
  have w: "wf_node ?n" by code_simp
  have v: "scan_directory ''/proj'' [''venv''] [''.py''] ?n =
     [(''/proj/a.py'', ''a.py''), (''/proj/sub/c.py'', ''sub/c.py'')]"
    by code_simp
  have p: "prune [''venv''] ?n = Dir None [(''sub'', Dir None [(''c.py'', File)]), (''a.py'', File)]"
    by simp
  show ?thesis
    using a w v p excluded_segment_never_listed [OF a w, of "[''venv'']" "[''.py'']"] by simp
qed

lemma names_of_files:
  "distinct (map fst es) \<Longrightarrow>
   map fst (filter (\<lambda>(name, c). \<not> isdir c) es) =
   filter (\<lambda>name. \<not> (case map_of es name of None \<Rightarrow> False | Some c \<Rightarrow> isdir c)) (map fst es)"
proof (induction es)
  case Nil
  show ?case by simp
next
  case (Cons e es)
  obtain name c where e: "e = (name, c)" by (cases e)
  have "filter (\<lambda>x. \<not> (case map_of ((name, c) # es) x of None \<Rightarrow> False | Some c \<Rightarrow> isdir c))
          (map fst es) =
        filter (\<lambda>x. \<not> (case map_of es x of None \<Rightarrow> False | Some c \<Rightarrow> isdir c)) (map fst es)"
    using Cons.prems unfolding e by (intro filter_cong) auto
  then show ?case
    using Cons unfolding e by simp
qed

lemma root_children_skipped:
  assumes "abs_norm path" "should_skip_path path ex" "valid_name entry"
  shows "should_skip_path (path_join path entry) ex"
proof -
  have "set (split sep (path_join path entry)) = set (split sep path) \<union> {entry}"
    using set_split_foldl [OF assms(1), of "[entry]"] assms(3) by simp
  then show ?thesis
    using assms(2) by (auto simp: should_skip_path_def list_ex_iff)
qed

lemma add_to_tree_drop_subdirs:
  assumes "abs_norm path" "wf_node n" "should_skip_path path ex"
  shows "add_to_tree ex fts path pfx (drop_subdirs n) = add_to_tree ex fts path pfx n"
proof (cases n)
  case File
  then show ?thesis by simp
next
  case (Dir e es)
  show ?thesis
  proof (cases e)
    case (Some err)
    then show ?thesis using Dir by (simp add: add_to_tree_unfold)
  next
    case None
    let ?fs = "filter (\<lambda>(name, c). \<not> isdir c) es"
    let ?isd = "\<lambda>name. case map_of es name of None \<Rightarrow> False | Some c \<Rightarrow> isdir c"
    let ?ok = "\<lambda>name. \<not> should_skip_file name ex \<and> is_included_file name fts"
    have d: "distinct (map fst es)" and wf: "wf_entries es"
      using assms(2) Dir by simp_all
    have nodir: "\<not> isdir c" if "map_of ?fs name = Some c" for name c
      using map_of_SomeD [OF that] by auto
    have l: "filtered_entries ex fts path (Dir None ?fs) (sort (map fst ?fs)) =
             filter (\<lambda>name. \<not> ?isd name \<and> ?ok name) (sort (map fst es))"
      unfolding names_of_files [OF d] filter_sort [symmetric] filtered_entries_def filter_filter
      by (rule filter_cong) (auto dest: nodir split: option.splits)
    have r: "filtered_entries ex fts path (Dir None es) (sort (map fst es)) =
             filter (\<lambda>name. \<not> ?isd name \<and> ?ok name) (sort (map fst es))"
      unfolding filtered_entries_def
    proof (rule filter_cong [OF refl])
      fix name
      assume "name \<in> set (sort (map fst es))"
      then have "valid_name name"
        using wf wf_entries_member by fastforce
      then have "should_skip_path (path_join path name) ex"
        by (rule root_children_skipped [OF assms(1,3)])
      then show "(let full_path = path_join path name
                  in if (case child (Dir None es) name of None \<Rightarrow> False | Some c \<Rightarrow> isdir c)
                     then \<not> should_skip_path full_path ex
                     else \<not> should_skip_file name ex \<and> is_included_file name fts) =
                 (\<not> ?isd name \<and> ?ok name)"
        by (simp add: Let_def)
    qed
    have "tree_loop pfx (filter (\<lambda>name. \<not> ?isd name \<and> ?ok name) (sort (map fst es)))
            (subtree ex fts path (Dir None ?fs)) =
          tree_loop pfx (filter (\<lambda>name. \<not> ?isd name \<and> ?ok name) (sort (map fst es)))
            (subtree ex fts path (Dir None es))"
      by (rule tree_loop_cong) (auto simp: subtree_def dest: nodir split: option.splits)
    then show ?thesis
      unfolding Dir None by (simp add: add_to_tree_unfold l r)
  qed
qed

text \<open>
  C10. The exclusion test looks at the whole path of a directory, the project path
  included. When a segment of the (absolute) project path is itself a member of the
  exclusion set, \<^const>\<open>scan_directory\<close> returns the empty list and the tree has no line
  for any sub-directory of the project, nor for anything below one: it is the tree of the
  project with its sub-directories taken away. Matching files in the project do not
  change this.
\<close>

theorem excluded_root_segment_skips_everything:
  assumes "abs_norm path" "wf_node n"
    and "seg \<in> set (split sep path)" "seg \<in> set ex"
  shows "scan_directory path ex fts n = [] \<and>
         generate_tree path ex fts (drop_subdirs n) = generate_tree path ex fts n"
proof -
  have s: "should_skip_path path ex"
    using assms(3,4) by (auto simp: should_skip_path_def list_ex_iff)
  show ?thesis
    using scan_directory_root_skipped [OF assms(1,2) s]
      add_to_tree_drop_subdirs [OF assms(1,2) s]
    by (simp add: generate_tree_def)
qed

theorem excluded_root_segment_skips_everything_witness:
  "abs_norm ''/home/venv/proj'' \<and>
   wf_node (Dir None [(''sub'', Dir None [(''c.py'', File)]), (''a.py'', File)]) \<and>
   ''venv'' \<in> set (split sep ''/home/venv/proj'') \<and>
   scan_directory ''/home/venv/proj'' [''venv''] [''.py'']
     (Dir None [(''sub'', Dir None [(''c.py'', File)]), (''a.py'', File)]) = [] \<and>
   generate_tree ''/home/venv/proj'' [''venv''] [''.py'']
     (Dir None [(''sub'', Dir None [(''c.py'', File)]), (''a.py'', File)]) =
     Inr [''Directory structure of: /home/venv/proj'', branch_last @ ''a.py''] \<and>
   scan_directory ''/home/proj'' [''venv''] [''.py'']
     (Dir None [(''sub'', Dir None [(''c.py'', File)]), (''a.py'', File)]) =
     [(''/home/proj/a.py'', ''a.py''), (''/home/proj/sub/c.py'', ''sub/c.py'')]"
proof -
  let ?n = "Dir None [(''sub'', Dir None [(''c.py'', File)]), (''a.py'', File)]"
  have a: "abs_norm ''/home/venv/proj''" by code_simp
  have w: "wf_node ?n" by code_simp
  have m: "''venv'' \<in> set (split sep ''/home/venv/proj'')" by code_simp
  have e: "''venv'' \<in> set [''venv'']" by simp
  have d: "generate_tree ''/home/venv/proj'' [''venv''] [''.py''] (drop_subdirs ?n) =
           Inr [''Directory structure of: /home/venv/proj'', branch_last @ ''a.py'']"
    by code_simp
  have o: "scan_directory ''/home/proj'' [''venv''] [''.py''] ?n =
     [(''/home/proj/a.py'', ''a.py''), (''/home/proj/sub/c.py'', ''sub/c.py'')]"
    by code_simp
  show ?thesis
    using a w m d o excluded_root_segment_skips_everything [OF a w m e, of "[''.py'']"]
    by simp
qed

section \<open>Independence of the enumeration order\<close>

lemma sort_mset_eq: "mset xs = mset ys \<Longrightarrow> sort xs = sort ys"
  by (rule properties_for_sort) simp_all

lemma all_files_entries_concat:
  "all_files_entries es =
     concat (map (\<lambda>(name, c). if isdir c then map ((#) name) (all_files c) else []) es)"
  by (induction es) auto

lemma mset_all_files_reorder:
  assumes "mset es = mset es'"
  shows "mset (all_files (Dir None es)) = mset (all_files (Dir None es'))"
proof -
  have "mset (all_files_entries xs) =
        (\<Sum>x \<in># mset xs. mset (case x of (name, c) \<Rightarrow>
            if isdir c then map ((#) name) (all_files c) else []))" for xs
    unfolding all_files_entries_concat mset_concat
    by (simp add: sum_mset_sum_list [symmetric] comp_def)
  then have "mset (all_files_entries es) = mset (all_files_entries es')"
    using assms by simp
  moreover have "mset (filter (\<lambda>(name, c). \<not> isdir c) es) = mset (filter (\<lambda>(name, c). \<not> isdir c) es')"
    using assms by simp
  then have "mset (map (\<lambda>f. [f]) (map fst (filter (\<lambda>(name, c). \<not> isdir c) es))) =
             mset (map (\<lambda>f. [f]) (map fst (filter (\<lambda>(name, c). \<not> isdir c) es')))"
    by (metis mset_map)
  ultimately show ?thesis by simp
qed

lemma isdir_canon [simp]: "isdir (canon c) = isdir c"
  by (cases c) auto

lemma canon_names: "map fst (canon_entries es) = map fst es"
  by (induction es) auto

lemma canon_map_of: "map_of (canon_entries es) k = map_option canon (map_of es k)"
  by (induction es) auto

lemma mset_all_files_canon:
  "mset (all_files (canon n)) = mset (all_files n)"
  "mset (all_files (Dir None (canon_entries es))) = mset (all_files (Dir None es))"
proof (induction n and es rule: canon_canon_entries.induct)
  case 1
  show ?case by simp
next
  case (2 e es)
  show ?case
  proof (cases e)
    case None
    have "mset (all_files (Dir None (sort_key fst (canon_entries es)))) =
          mset (all_files (Dir None (canon_entries es)))"
      by (rule mset_all_files_reorder) simp
    then show ?thesis using 2 None by simp
  qed simp
next
  case 3
  show ?case by simp
next
  case (4 name c es)
  then show ?case by (cases "isdir c") (simp_all add: image_mset.compositionality comp_def)
qed

lemma scan_directory_same_files:
  assumes "mset (all_files n1) = mset (all_files n2)"
  shows "scan_directory path ex fts n1 = scan_directory path ex fts n2"
proof -
  have "mset (file_paths path ex fts n1) = mset (file_paths path ex fts n2)"
    unfolding file_paths_all_files using assms by simp
  then show ?thesis
    unfolding scan_directory_def by (rule sort_mset_eq)
qed

lemma map_of_first:
  "map_of xs k = (case filter (\<lambda>y. fst y = k) xs of [] \<Rightarrow> None | y # ys \<Rightarrow> Some (snd y))"
  by (induction xs) auto

lemma map_of_sort_key: "map_of (sort_key fst xs) k = map_of xs k"
  unfolding map_of_first [of "sort_key fst xs"] sort_key_stable
  by (simp add: map_of_first)

lemma child_canon:
  "map_of (sort_key fst (canon_entries es)) k = map_option canon (map_of es k)"
  by (simp add: map_of_sort_key canon_map_of)

lemma names_canon:
  "sort (map fst (sort_key fst (canon_entries es))) = sort (map fst es)"
  by (rule sort_mset_eq) (metis canon_names mset_map mset_sort)

lemma filtered_canon:
  "filtered_entries ex fts p (Dir None (sort_key fst (canon_entries es))) xs =
   filtered_entries ex fts p (Dir None es) xs"
  unfolding filtered_entries_def
  by (rule filter_cong) (auto simp: child_canon split: option.splits)

lemma add_to_tree_canon:
  "add_to_tree ex fts p pfx (canon n) = add_to_tree ex fts p pfx n"
proof (induction n arbitrary: p pfx rule: measure_induct_rule [where f = size])
  case (less n)
  show ?case
  proof (cases n)
    case File
    then show ?thesis by simp
  next
    case (Dir e es)
    show ?thesis
    proof (cases e)
      case (Some err)
      then show ?thesis using Dir by (simp add: add_to_tree_unfold)
    next
      case None
      have "subtree ex fts p (Dir None (sort_key fst (canon_entries es))) entry q =
            subtree ex fts p (Dir None es) entry q" for entry q
        using less.IH [of _ "path_join p entry" q] child_size [of n entry] Dir
        by (auto simp: subtree_def child_canon split: option.splits)
      then have "subtree ex fts p (Dir None (sort_key fst (canon_entries es))) =
                 subtree ex fts p (Dir None es)"
        by (intro ext)
      then show ?thesis
        unfolding Dir None
        by (simp add: add_to_tree_unfold names_canon filtered_canon)
    qed
  qed
qed

lemma canon_entries_map: "canon_entries es = map (\<lambda>(k, c). (k, canon c)) es"
  by (induction es) auto

lemma insort_key_map_same:
  assumes "\<And>x. f (g x) = f x"
  shows "insort_key f (g x) (map g ys) = map g (insort_key f x ys)"
  by (induction ys) (simp_all add: assms)

lemma sort_key_map_same:
  assumes "\<And>x. f (g x) = f x"
  shows "sort_key f (map g xs) = map g (sort_key f xs)"
  by (induction xs) (simp_all add: insort_key_map_same [of f g, OF assms])

lemma sort_key_append_sorted: "sort_key f (xs @ ys) = sort_key f (sort_key f xs @ ys)"
proof (rule properties_for_sort_key)
  show "mset (sort_key f (sort_key f xs @ ys)) = mset (xs @ ys)"
    by simp
  show "sorted (map f (sort_key f (sort_key f xs @ ys)))"
    by simp
  fix k
  assume "k \<in> set (sort_key f (sort_key f xs @ ys))"
  have "filter (\<lambda>x. f k = f x) (sort_key f (sort_key f xs @ ys)) =
        filter (\<lambda>x. f k = f x) (sort_key f xs @ ys)"
    using sort_key_stable [of f "f k" "sort_key f xs @ ys"] by (simp add: eq_commute)
  also have "\<dots> = filter (\<lambda>x. f k = f x) (xs @ ys)"
    using sort_key_stable [of f "f k" xs] by (simp add: eq_commute)
  finally show "filter (\<lambda>x. f k = f x) (sort_key f (sort_key f xs @ ys)) =
                filter (\<lambda>x. f k = f x) (xs @ ys)" .
qed

lemma canon_idem:
  "canon (canon n) = canon n"
  "canon_entries (canon_entries es) = canon_entries es"
proof (induction n and es rule: canon_canon_entries.induct)
  case (2 e es)
  have "canon_entries (sort_key fst xs) = sort_key fst (canon_entries xs)" for xs
    by (simp add: canon_entries_map sort_key_map_same case_prod_unfold)
  then show ?case
    using 2 by (simp add: sort_key_id_if_sorted)
qed simp_all

lemma canon_File: "canon n = File \<longleftrightarrow> n = File"
  by (cases n) auto

lemma canon_keys:
  assumes "sort_key fst (canon_entries es1) = sort_key fst (canon_entries es2)"
  shows "fst ` set es1 = fst ` set es2"
proof -
  have "fst ` set es = set (map fst (sort_key fst (canon_entries es)))" for es
    by (simp add: canon_entries_map image_image case_prod_unfold)
  then show ?thesis using assms by metis
qed

lemma add_file_deep:
  "rest \<noteq> [] \<Longrightarrow>
   add_file (d # rest) (Dir e es) =
     Dir e (map (\<lambda>(k, c). if k = d then (k, add_file rest c) else (k, c)) es)"
  by (cases rest) auto

lemma canon_add_file:
  "canon n1 = canon n2 \<Longrightarrow> canon (add_file segs n1) = canon (add_file segs n2)"
proof (induction segs arbitrary: n1 n2)
  case Nil
  then show ?case by simp
next
  case (Cons d rest)
  show ?case
  proof (cases n1)
    case File
    then have "n2 = File" using Cons.prems canon_File [of n2] by simp
    then show ?thesis using File by simp
  next
    case (Dir e1 es1)
    then obtain e2 es2 where n2: "n2 = Dir e2 es2"
      using Cons.prems canon_File [of n1] by (cases n2) auto
    have e: "e1 = e2" and
      S: "sort_key fst (canon_entries es1) = sort_key fst (canon_entries es2)"
      using Cons.prems Dir n2 by simp_all
    show ?thesis
    proof (cases rest)
      case Nil
      have keys: "fst ` set es1 = fst ` set es2" by (rule canon_keys [OF S])
      have "sort_key fst (canon_entries es1 @ [(d, File)]) =
            sort_key fst (canon_entries es2 @ [(d, File)])"
        using sort_key_append_sorted [of fst "canon_entries es1" "[(d, File)]"]
          sort_key_append_sorted [of fst "canon_entries es2" "[(d, File)]"] S
        by simp
      moreover have "canon_entries (es @ [(d, File)]) = canon_entries es @ [(d, File)]" for es
        by (simp add: canon_entries_map)
      ultimately show ?thesis
        using Dir n2 e S keys Nil by simp
    next
      case (Cons r rest')
      let ?h = "\<lambda>(k, cc). (k, if k = d then canon (add_file rest cc) else cc)"
      have same: "canon (add_file rest c) = canon (add_file rest (canon c))" for c
        by (rule Cons.IH) (simp add: canon_idem)
      have ce: "canon_entries
                 (map (\<lambda>(k, c). if k = d then (k, add_file rest c) else (k, c)) es) =
               map ?h (canon_entries es)" for es
        using same by (induction es) auto
      have "sort_key fst (map ?h (canon_entries es)) = map ?h (sort_key fst (canon_entries es))" for es
        by (rule sort_key_map_same) auto
      moreover have "rest \<noteq> []" using Cons by simp
      ultimately show ?thesis
        using Dir n2 e S ce by (simp add: add_file_deep)
    qed
  qed
qed

lemma scan_directory_same_canon:
  assumes "canon n1 = canon n2"
  shows "scan_directory path ex fts n1 = scan_directory path ex fts n2"
proof -
  have "mset (all_files n1) = mset (all_files n2)"
    using mset_all_files_canon(1) [of n1] mset_all_files_canon(1) [of n2] assms by simp
  then show ?thesis
    by (rule scan_directory_same_files)
qed

lemma main_scan_cong:
  assumes "open_write w1 = open_write w2"
    and "scan_directory (project_path a) (exclude a) (file_types a) n1 =
         scan_directory (project_path a) (exclude a) (file_types a) n2"
  shows "main_scan a w1 rd n1 tc out fw = main_scan a w2 rd n2 tc out fw"
  by (simp add: main_scan_def main_combine_def assms split: list.splits)

text \<open>
  C9. Two file systems that differ only in the order in which directories enumerate
  their entries give the same list from \<^const>\<open>scan_directory\<close>, since the collected
  pairs are sorted as a whole and the sorted list depends only on which pairs were
  collected. The tree is the same too (each listing is sorted before it is rendered), and
  so is everything \<^const>\<open>main\<close> prints and writes, the combined output included.
\<close>

theorem scan_directory_order_independent:
  assumes "canon n1 = canon n2"
  shows "scan_directory path ex fts n1 = scan_directory path ex fts n2 \<and>
         generate_tree path ex fts n1 = generate_tree path ex fts n2 \<and>
         main a (w\<lparr>project := Some n1\<rparr>) = main a (w\<lparr>project := Some n2\<rparr>)"
proof -
  let ?w1 = "w\<lparr>project := Some n1\<rparr>" and ?w2 = "w\<lparr>project := Some n2\<rparr>"
  have s: "scan_directory path ex fts n1 = scan_directory path ex fts n2" for path ex fts
    using assms by (rule scan_directory_same_canon)
  have "add_to_tree ex fts p pfx n1 = add_to_tree ex fts p pfx n2" for ex fts p pfx
    using add_to_tree_canon [of ex fts p pfx n1] add_to_tree_canon [of ex fts p pfx n2] assms
    by simp
  then have t: "generate_tree path ex fts n1 = generate_tree path ex fts n2" for path ex fts
    by (simp add: generate_tree_def)
  have "canon (node_after_write ?w1 name n1) = canon (node_after_write ?w2 name n2)" for name
  proof (cases "locate w name")
    case None
    then show ?thesis using assms by (simp add: node_after_write_def)
  next
    case (Some segs)
    then show ?thesis
      using canon_add_file [OF assms, of segs] by (simp add: node_after_write_def)
  qed
  then have s': "scan_directory path ex fts (node_after_write ?w1 name n1) =
                 scan_directory path ex fts (node_after_write ?w2 name n2)" for path ex fts name
    by (rule scan_directory_same_canon)
  have m: "main_scan a ?w1 rd n1 tc out fw = main_scan a ?w2 rd n2 tc out fw" for rd tc out fw
    by (rule main_scan_cong) (simp_all add: s)
  have m': "main_scan a ?w1 rd (node_after_write ?w1 name n1) tc out fw =
            main_scan a ?w2 rd (node_after_write ?w2 name n2) tc out fw" for rd name tc out fw
    by (rule main_scan_cong) (simp_all add: s')
  have r: "read_after_write ?w1 pp name content = read_after_write ?w2 pp name content"
    for pp name content
    by (simp add: read_after_write_def split: option.splits)
  have "main a ?w1 = main a ?w2"
    by (simp add: main_def main_tree_def t m m' r split: sum.splits option.splits)
  with s t show ?thesis by simp
qed

theorem scan_directory_order_independent_witness:
  "canon (Dir None [(''b.py'', File), (''sub'', Dir None [(''z.py'', File), (''c.py'', File)]),
                    (''a.py'', File)]) =
   canon (Dir None [(''a.py'', File), (''sub'', Dir None [(''c.py'', File), (''z.py'', File)]),
                    (''b.py'', File)]) \<and>
   scan_directory ''/proj'' [''venv''] []
     (Dir None [(''b.py'', File), (''sub'', Dir None [(''z.py'', File), (''c.py'', File)]),
                (''a.py'', File)]) =
     [(''/proj/a.py'', ''a.py''), (''/proj/b.py'', ''b.py''),
      (''/proj/sub/c.py'', ''sub/c.py''), (''/proj/sub/z.py'', ''sub/z.py'')] \<and>
   scan_directory ''/proj'' [''venv''] []
     (Dir None [(''a.py'', File), (''sub'', Dir None [(''c.py'', File), (''z.py'', File)]),
                (''b.py'', File)]) =
     [(''/proj/a.py'', ''a.py''), (''/proj/b.py'', ''b.py''),
      (''/proj/sub/c.py'', ''sub/c.py''), (''/proj/sub/z.py'', ''sub/z.py'')]"
proof -
  let ?n1 = "Dir None [(''b.py'', File), (''sub'', Dir None [(''z.py'', File), (''c.py'', File)]),
                       (''a.py'', File)]"
  let ?n2 = "Dir None [(''a.py'', File), (''sub'', Dir None [(''c.py'', File), (''z.py'', File)]),
                       (''b.py'', File)]"
  have c: "canon ?n1 = canon ?n2" by code_simp
  have v: "scan_directory ''/proj'' [''venv''] [] ?n1 =
     [(''/proj/a.py'', ''a.py''), (''/proj/b.py'', ''b.py''),
      (''/proj/sub/c.py'', ''sub/c.py''), (''/proj/sub/z.py'', ''sub/z.py'')]"
    by code_simp
  show ?thesis
    using c v scan_directory_order_independent [OF c, of "''/proj''" "[''venv'']" "[]"]
    by simp
qed

section \<open>Properties of the command\<close>

text \<open>
  C5. When the project path does not exist, \<^const>\<open>main\<close> prints the configuration and
  then the message naming the path, exits with status 1, and has written no file: neither
  the combined output nor the separate tree file.
\<close>

theorem main_missing_project_path:
  "project w = None \<Longrightarrow>
   printed (main a w) = config_lines a @ [''Error: Path '' @ project_path a @ '' does not exist''] \<and>
   outcome (main a w) = Exit 1 \<and>
   exit_status (outcome (main a w)) \<noteq> 0 \<and>
   written (main a w) = []"
  by (simp add: main_def main_tree_def)

theorem main_missing_project_path_witness:
  "outcome (main \<lparr>project_path = ''/nowhere'', output_file = ''out.txt'', exclude = [''venv''],
             file_types = [], separate_tree = True\<rparr>
          \<lparr>project = None, read_file = (\<lambda>p. Inl ''missing''), open_write = (\<lambda>p. None),
           locate = (\<lambda>p. None)\<rparr>) = Exit 1 \<and>
   written (main \<lparr>project_path = ''/nowhere'', output_file = ''out.txt'', exclude = [''venv''],
             file_types = [], separate_tree = True\<rparr>
          \<lparr>project = None, read_file = (\<lambda>p. Inl ''missing''), open_write = (\<lambda>p. None),
           locate = (\<lambda>p. None)\<rparr>) = []"
  using main_missing_project_path
    [of "\<lparr>project = None, read_file = (\<lambda>p. Inl ''missing''), open_write = (\<lambda>p. None),
          locate = (\<lambda>p. None)\<rparr>"
        "\<lparr>project_path = ''/nowhere'', output_file = ''out.txt'', exclude = [''venv''],
             file_types = [], separate_tree = True\<rparr>"]
  by simp

lemma rsplit1_head_split:
  assumes "c \<in> set s"
  shows "\<exists>ext. s = rsplit1_head c s @ c # ext \<and> c \<notin> set ext"
proof -
  from assms have "c \<in> set (rev s)" by simp
  then obtain ys zs where yz: "rev s = ys @ c # zs" "c \<notin> set ys"
    by (meson split_list_first)
  then have "dropWhile (\<lambda>x. x \<noteq> c) (rev s) = c # zs"
    by (auto simp: dropWhile_append3)
  then have h: "rsplit1_head c s = rev zs"
    using assms by (simp add: rsplit1_head_def)
  have "s = rev zs @ c # rev ys"
    using yz(1) by (metis rev_append rev.simps(2) rev_rev_ident append_assoc append_Cons append_Nil)
  then show ?thesis using h yz(2) by auto
qed

lemma tree_file_name_differs: "tree_file_name out_file \<noteq> out_file"
proof (cases "CHR ''.'' \<in> set out_file")
  case True
  then obtain ext where e: "out_file = rsplit1_head CHR ''.'' out_file @ CHR ''.'' # ext"
    using rsplit1_head_split by blast
  show ?thesis
  proof
    assume "tree_file_name out_file = out_file"
    then have "rsplit1_head CHR ''.'' out_file @ ''_tree.txt'' = rsplit1_head CHR ''.'' out_file @ CHR ''.'' # ext"
      using e by (simp add: tree_file_name_def)
    then show False by simp
  qed
next
  case False
  then show ?thesis by (simp add: tree_file_name_def rsplit1_head_def)
qed

lemma main_tree_written:
  assumes "main_tree a w = Inr (rd, n', tc, out, fw)"
  shows "fst ` set fw \<subseteq> {tree_file_name (output_file a)}"
  using assms
  by (auto simp: main_tree_def split: option.splits sum.splits if_splits prod.splits)

text \<open>
  C6. When the project path exists and the call of \<^verbatim>\<open>scan_directory\<close> in \<^const>\<open>main\<close>
  returns no file, \<^const>\<open>main\<close> prints the warning last, exits with status 1 and does not
  write the combined output file. The call sees the project as it is when it is made:
  after the separate tree file, if asked for, has been written.
\<close>

theorem main_no_matching_files:
  assumes "project w = Some n" and "scan_call a w = Some []"
  shows "last (printed (main a w)) = ''Warning: No matching files found!'' \<and>
         outcome (main a w) = Exit 1 \<and>
         exit_status (outcome (main a w)) \<noteq> 0 \<and>
         output_file a \<notin> fst ` set (written (main a w))"
proof (cases "main_tree a w")
  case (Inl r)
  then show ?thesis using assms(2) by (simp add: scan_call_def)
next
  case (Inr st)
  obtain rd n' tc out fw where st: "st = (rd, n', tc, out, fw)"
    by (cases st)
  have e: "scan_directory (project_path a) (exclude a) (file_types a) n' = []"
    using assms(2) Inr st by (simp add: scan_call_def)
  have "output_file a \<notin> fst ` set fw"
    using main_tree_written [of a w rd n' tc out fw] Inr st
      tree_file_name_differs [of "output_file a"]
    by auto
  then show ?thesis
    using Inr st e by (simp add: main_def main_scan_def)
qed

theorem main_no_matching_files_witness:
  "project \<lparr>project = Some (Dir None [(''venv'', Dir None [(''x.py'', File)]), (''notes.txt'', File)]),
            read_file = (\<lambda>p. Inr ''text''), open_write = (\<lambda>p. None),
            locate = (\<lambda>p. if p = ''/proj/out_tree.txt'' then Some [''out_tree.txt'']
                            else if p = ''/proj/out.txt'' then Some [''out.txt''] else None)\<rparr> =
     Some (Dir None [(''venv'', Dir None [(''x.py'', File)]), (''notes.txt'', File)]) \<and>
   scan_call
     \<lparr>project_path = ''/proj'', output_file = ''/proj/out.txt'', exclude = [''venv''],
      file_types = [''.py''], separate_tree = True\<rparr>
     \<lparr>project = Some (Dir None [(''venv'', Dir None [(''x.py'', File)]), (''notes.txt'', File)]),
      read_file = (\<lambda>p. Inr ''text''), open_write = (\<lambda>p. None),
      locate = (\<lambda>p. if p = ''/proj/out_tree.txt'' then Some [''out_tree.txt'']
                      else if p = ''/proj/out.txt'' then Some [''out.txt''] else None)\<rparr> = Some [] \<and>
   main
     \<lparr>project_path = ''/proj'', output_file = ''/proj/out.txt'', exclude = [''venv''],
      file_types = [''.py''], separate_tree = True\<rparr>
     \<lparr>project = Some (Dir None [(''venv'', Dir None [(''x.py'', File)]), (''notes.txt'', File)]),
      read_file = (\<lambda>p. Inr ''text''), open_write = (\<lambda>p. None),
      locate = (\<lambda>p. if p = ''/proj/out_tree.txt'' then Some [''out_tree.txt'']
                      else if p = ''/proj/out.txt'' then Some [''out.txt''] else None)\<rparr> =
     \<lparr>printed =
        [CHR 0x0A # ''Configuration:'',
         ''Project path: /proj'',
         ''Output file: /proj/out.txt'',
         ''File types: .py'',
         ''Excluded items: venv'',
         ''Separate tree file: True'' @ [CHR 0x0A],
         ''Generating directory tree...'',
         ''Directory tree saved to: /proj/out_tree.txt'',
         ''Scanning for files...'',
         ''Warning: No matching files found!''],
      outcome = Exit 1,
      written = [(''/proj/out_tree.txt'', ''Directory structure of: /proj'')]\<rparr>"
proof -
  let ?a = "\<lparr>project_path = ''/proj'', output_file = ''/proj/out.txt'', exclude = [''venv''],
      file_types = [''.py''], separate_tree = True\<rparr>"
  let ?n = "Dir None [(''venv'', Dir None [(''x.py'', File)]), (''notes.txt'', File)]"
  let ?w = "\<lparr>project = Some ?n, read_file = (\<lambda>p. Inr ''text''), open_write = (\<lambda>p. None),
      locate = (\<lambda>p. if p = ''/proj/out_tree.txt'' then Some [''out_tree.txt'']
                      else if p = ''/proj/out.txt'' then Some [''out.txt''] else None)\<rparr>"
  have t: "generate_tree ''/proj'' [''venv''] [''.py''] ?n = Inr [''Directory structure of: /proj'']"
    by code_simp
  have f: "tree_file_name ''/proj/out.txt'' = ''/proj/out_tree.txt''"
    by code_simp
  have s: "scan_directory ''/proj'' [''venv''] [''.py'']
             (Dir None [(''venv'', Dir None [(''x.py'', File)]), (''notes.txt'', File),
                        (''out_tree.txt'', File)]) = []"
    by code_simp
  have c: "scan_call ?a ?w = Some []"
    by (simp add: scan_call_def main_tree_def t f node_after_write_def s)
  have m: "main ?a ?w =
     \<lparr>printed =
        [CHR 0x0A # ''Configuration:'',
         ''Project path: /proj'',
         ''Output file: /proj/out.txt'',
         ''File types: .py'',
         ''Excluded items: venv'',
         ''Separate tree file: True'' @ [CHR 0x0A],
         ''Generating directory tree...'',
         ''Directory tree saved to: /proj/out_tree.txt'',
         ''Scanning for files...'',
         ''Warning: No matching files found!''],
      outcome = Exit 1,
      written = [(''/proj/out_tree.txt'', ''Directory structure of: /proj'')]\<rparr>"
    by (simp add: main_def main_tree_def main_scan_def t f node_after_write_def s
          config_lines_def str_bool_def)
  have "last (printed (main ?a ?w)) = ''Warning: No matching files found!''"
    using main_no_matching_files [of ?w ?n ?a, OF _ c] by simp
  then show ?thesis
    using c m by simp
qed

text \<open>
  The scan comes after the separate tree file has been written. With the output file
  inside the project and no extension filter, the tree file is itself found by the scan,
  read back and combined: a project with nothing but an excluded directory then gives no
  warning.
\<close>

lemma tree_file_inside_project_is_scanned:
  "main
     \<lparr>project_path = ''/proj'', output_file = ''/proj/out.txt'', exclude = [''venv''],
      file_types = [], separate_tree = True\<rparr>
     \<lparr>project = Some (Dir None [(''venv'', Dir None [(''x.py'', File)])]),
      read_file = (\<lambda>p. Inl ''No such file or directory''), open_write = (\<lambda>p. None),
      locate = (\<lambda>p. if p = ''/proj/out_tree.txt'' then Some [''out_tree.txt'']
                      else if p = ''/proj/out.txt'' then Some [''out.txt''] else None)\<rparr> =
     \<lparr>printed =
        [CHR 0x0A # ''Configuration:'',
         ''Project path: /proj'',
         ''Output file: /proj/out.txt'',
         ''File types: All files'',
         ''Excluded items: venv'',
         ''Separate tree file: True'' @ [CHR 0x0A],
         ''Generating directory tree...'',
         ''Directory tree saved to: /proj/out_tree.txt'',
         ''Scanning for files...'',
         ''Combining files...'',
         CHR 0x0A # ''Processed 1 files'',
         ''Combined content saved to: /proj/out.txt''],
      outcome = Returned,
      written =
        [(''/proj/out_tree.txt'', ''Directory structure of: /proj''),
         (''/proj/out.txt'',
          str_join [CHR 0x0A]
            (header_lines ''/proj'' [''venv''] [] @
             [banner, ''# File: out_tree.txt'', banner, ''Directory structure of: /proj'',
              [CHR 0x0A]]))]\<rparr>"
proof -
  let ?n = "Dir None [(''venv'', Dir None [(''x.py'', File)])]"
  have t: "generate_tree ''/proj'' [''venv''] [] ?n = Inr [''Directory structure of: /proj'']"
    by code_simp
  have f: "tree_file_name ''/proj/out.txt'' = ''/proj/out_tree.txt''"
    by code_simp
  have s: "scan_directory ''/proj'' [''venv''] []
             (Dir None [(''venv'', Dir None [(''x.py'', File)]), (''out_tree.txt'', File)]) =
             [(''/proj/out_tree.txt'', ''out_tree.txt'')]"
    by code_simp
  have j: "path_join_all ''/proj'' [''out_tree.txt''] = ''/proj/out_tree.txt''"
    by code_simp
  have n: "digit_char (Suc 0) = CHR ''1''"
    by code_simp
  show ?thesis
    by (simp add: main_def main_tree_def main_scan_def main_combine_def t f s j n
          node_after_write_def read_after_write_def combine_files_blocks file_block_def
          read_warning_def config_lines_def str_bool_def)
qed

lemma separate_tree_holds:
  assumes "separate_tree a" "project w = Some n"
    and "generate_tree (project_path a) (exclude a) (file_types a) n = Inr tree_content"
    and "open_write w (tree_file_name (output_file a)) = None"
  shows "hd (written (main a w)) =
           (rsplit1_head CHR ''.'' (output_file a) @ ''_tree.txt'', str_join [CHR 0x0A] tree_content)"
    and "hd tree_content = ''Directory structure of: '' @ project_path a"
    and "combine_files r fps pp tree_content ex fts (\<not> separate_tree a) =
         combine_files r fps pp [] ex fts False"
proof -
  show "hd (written (main a w)) =
           (rsplit1_head CHR ''.'' (output_file a) @ ''_tree.txt'', str_join [CHR 0x0A] tree_content)"
    using assms
    by (simp add: main_def main_tree_def main_scan_def main_combine_def tree_file_name_def
          split: list.splits prod.splits option.splits)
  show "hd tree_content = ''Directory structure of: '' @ project_path a"
    using assms(3) by (auto simp: generate_tree_def split: sum.splits)
  show "combine_files r fps pp tree_content ex fts (\<not> separate_tree a) =
        combine_files r fps pp [] ex fts False"
    using assms(1) by (simp add: combine_files_def)
qed

text \<open>
  C8. With \<^verbatim>\<open>--separate-tree\<close> the tree goes to its own file, whose first line is the
  \<^verbatim>\<open>Directory structure of:\<close> line, and the combined file has no structure section
  (\<open>separate_tree_holds\<close>). The name of the tree file is the text of the output name
  before its last dot, wherever that dot is, followed by \<^verbatim>\<open>_tree.txt\<close>: for the output
  file \<^verbatim>\<open>my.dir/out\<close> the tree is written to \<^verbatim>\<open>my_tree.txt\<close>, which is neither beside
  the output file nor its name with the extension replaced.
\<close>

theorem separate_tree_file_name_dotted_directory:
  "written (main
      \<lparr>project_path = ''/proj'', output_file = ''my.dir/out'', exclude = [''venv''],
       file_types = [''.py''], separate_tree = True\<rparr>
      \<lparr>project = Some (Dir None [(''a.py'', File)]),
       read_file = (\<lambda>p. Inr ''text''), open_write = (\<lambda>p. None),
       locate = (\<lambda>p. None)\<rparr>) =
     [(''my_tree.txt'', ''Directory structure of: /proj'' @ [CHR 0x0A] @ branch_last @ ''a.py''),
      (''my.dir/out'',
       str_join [CHR 0x0A]
         (header_lines ''/proj'' [''venv''] [''.py''] @
          [banner, ''# File: a.py'', banner, ''text'', [CHR 0x0A]]))]"
proof -
  let ?n = "Dir None [(''a.py'', File)]"
  have t: "generate_tree ''/proj'' [''venv''] [''.py''] ?n =
             Inr [''Directory structure of: /proj'', branch_last @ ''a.py'']"
    by code_simp
  have s: "scan_directory ''/proj'' [''venv''] [''.py''] ?n = [(''/proj/a.py'', ''a.py'')]"
    by code_simp
  have n: "tree_file_name ''my.dir/out'' = ''my_tree.txt''"
    by code_simp
  show ?thesis
    by (simp add: main_def main_tree_def main_scan_def main_combine_def t s n
          node_after_write_def read_after_write_def combine_files_def combine_step_def)
qed

end
